theory Spec2Isabelle
  imports Complex_Main "HOL-Library.AList"
begin

section \<open>Conventions of the embedding\<close>

text \<open>
  The Python sources \<^verbatim>\<open>analysis.py\<close>, \<^verbatim>\<open>quantum_galton_board.py\<close> and
  \<^verbatim>\<open>quantum_simulation.py\<close> are embedded as follows.
  \<^item> Python integers are \<open>int\<close>; Python floats are idealised as \<open>real\<close>, so a property
    that the program has "within floating tolerance" is an exact equation here. Where
    a property is about the exact float result, the rounding of binary64 arithmetic is
    modelled too (the estimator \<open>weighted_estimator_from_probs_f64\<close>).
  \<^item> A dictionary is an association list in insertion order; \<open>map_of\<close> is the lookup and
    \<open>AList.update\<close> the assignment (an existing key keeps its place, a new key goes last).
  \<^item> Every \<^verbatim>\<open>raise\<close> of the sources and every exception of a Python or numpy primitive
    they call is a value \<open>Inl e\<close> of the result type \<open>error + 'a\<close>.
  \<^item> The random generator behind \<^verbatim>\<open>np.random.multinomial\<close> is a parameter
    \<open>multinomial\<close> together with an explicit generator state that is passed through.
\<close>

datatype value_error =
    ScaleNotValid real int
  | UnknownDistributionType string
  | ThetasLengthMismatch
  | InvalidLiteral string
  | MultinomialArgument

datatype error =
    KeyError int
  | ZeroDivisionError
  | TypeError
  | ValueError value_error
  | CircuitError
  | EmptySampleError
  | NonFinite

text \<open>
  \<open>ValueError\<close> carries the data its message is formatted from (the scale and the layer
  count for \<open>ScaleNotValid\<close>, the label for \<open>UnknownDistributionType\<close>), not the rendered
  text. \<open>EmptySampleError\<close> is the exception of \<^verbatim>\<open>np.percentile\<close> on an empty sample.

  \<open>NonFinite\<close> is no exception: it marks a single computed float (a summand, a
  divergence, a resampled probability, an estimate) that is \<^verbatim>\<open>nan\<close> or infinite, which
  numpy produces with a warning (a division by zero, the logarithm of a non-positive
  number) and which is no real number.

  What the two bootstraps return is a \<open>returned\<close> value: \<open>Finite x\<close> when every returned
  float is a real number, and \<open>NotFinite\<close> when the call returns but a returned float is
  \<^verbatim>\<open>nan\<close> or infinite. A call that raises is \<open>Inl e\<close>; a call that returns is \<open>Inr\<close>.
\<close>

datatype 'a returned = Finite 'a | NotFinite

type_synonym counts = "(string \<times> int) list"
type_synonym dist = "(int \<times> real) list"

section \<open>analysis.py: process_results\<close>

text \<open>\<^verbatim>\<open>sum(counts.values())\<close>\<close>

definition total_counts :: "counts \<Rightarrow> int" where
  "total_counts counts = sum_list (map snd counts)"

text \<open>\<^verbatim>\<open>bitstring.count('1')\<close>\<close>

definition count_ones :: "string \<Rightarrow> int" where
  "count_ones bitstring = int (count_list bitstring (CHR ''1''))"

text \<open>\<^verbatim>\<open>{k: 0 for k in range(layers + 1)}\<close>\<close>

definition zero_bins :: "int \<Rightarrow> (int \<times> int) list" where
  "zero_bins layers = map (\<lambda>k. (k, 0)) [0..layers]"

text \<open>\<^verbatim>\<open>final_bins[num_ones] += count\<close>: the read of a missing key raises KeyError.\<close>

definition bin_add :: "(int \<times> int) list \<Rightarrow> int \<Rightarrow> int \<Rightarrow> error + (int \<times> int) list" where
  "bin_add final_bins num_ones count =
     (case map_of final_bins num_ones of
        None \<Rightarrow> Inl (KeyError num_ones)
      | Some v \<Rightarrow> Inr (AList.update num_ones (v + count) final_bins))"

text \<open>The loop \<^verbatim>\<open>for bitstring, count in counts.items()\<close>.\<close>

fun fill_bins :: "(int \<times> int) list \<Rightarrow> counts \<Rightarrow> error + (int \<times> int) list" where
  "fill_bins final_bins [] = Inr final_bins"
| "fill_bins final_bins ((bitstring, count) # rest) =
     (case bin_add final_bins (count_ones bitstring) count of
        Inl e \<Rightarrow> Inl e
      | Inr final_bins' \<Rightarrow> fill_bins final_bins' rest)"

definition process_results :: "counts \<Rightarrow> int \<Rightarrow> error + dist" where
  "process_results counts layers =
     (let num_shots = total_counts counts in
      if num_shots = 0 then Inr (map (\<lambda>k. (k, 0)) [0..layers])
      else
        (case fill_bins (zero_bins layers) counts of
           Inl e \<Rightarrow> Inl e
         | Inr final_bins \<Rightarrow>
             Inr (map (\<lambda>(k, v). (k, real_of_int v / real_of_int num_shots)) final_bins)))"

text \<open>The precondition of the bin lookup: no bitstring has more than \<open>layers\<close> ones.\<close>

definition ones_within :: "int \<Rightarrow> counts \<Rightarrow> bool" where
  "ones_within layers counts = list_all (\<lambda>(bitstring, count). count_ones bitstring \<le> layers) counts"

section \<open>quantum_galton_board.py\<close>

text \<open>
  The circuit that \<^verbatim>\<open>QuantumCircuit\<close> accumulates: its two register sizes, its name and
  the instructions in the order they were appended. \<^verbatim>\<open>qc.h(range(n))\<close> appends one
  Hadamard gate per qubit, \<^verbatim>\<open>qc.measure(range(n), range(n))\<close> one measurement of qubit
  \<open>i\<close> into classical bit \<open>i\<close> per qubit.
\<close>

datatype instruction = H nat | Ry real nat | Measure nat nat

record circuit =
  num_qubits :: nat
  num_clbits :: nat
  name :: string
  data :: "instruction list"

text \<open>The decimal text of a natural number, for the f-string of the circuit's name.\<close>

fun str_nat :: "nat \<Rightarrow> string" where
  "str_nat n =
     (if n < 10 then [''0123456789'' ! n]
      else str_nat (n div 10) @ [''0123456789'' ! (n mod 10)])"

text \<open>
  \<^verbatim>\<open>create_qgb_circuit(layers, thetas=None)\<close>. The constructor \<^verbatim>\<open>QuantumCircuit(layers, layers)\<close>
  refuses a negative register size with a CircuitError. For \<open>layers = 0\<close> the gate and
  measurement calls receive an empty range of qubits; the model takes them to append
  nothing, and no property below is about that case.
\<close>

definition create_qgb_circuit :: "int \<Rightarrow> real list option \<Rightarrow> error + circuit" where
  "create_qgb_circuit layers thetas =
     (if layers < 0 then Inl CircuitError
      else
        (let n = nat layers;
             qc = \<lparr>num_qubits = n, num_clbits = n,
                   name = ''QGB_'' @ str_nat n @ ''L'', data = []\<rparr>
         in case thetas of
              None \<Rightarrow>
                Inr (qc\<lparr>data := map H [0..<n] @ map (\<lambda>i. Measure i i) [0..<n]\<rparr>)
            | Some ts \<Rightarrow>
                if int (length ts) \<noteq> layers then Inl (ValueError ThetasLengthMismatch)
                else Inr (qc\<lparr>data := map (\<lambda>i. Ry (ts ! i) i) [0..<n]
                                       @ map (\<lambda>i. Measure i i) [0..<n]\<rparr>)))"

text \<open>
  \<^verbatim>\<open>get_thetas_for_exponential(layers, scale)\<close>. The division \<^verbatim>\<open>scale / layers\<close> raises
  ZeroDivisionError for \<open>layers = 0\<close>; \<^verbatim>\<open>[theta] * layers\<close> is the empty list for a
  negative \<open>layers\<close>.
\<close>

definition get_thetas_for_exponential :: "int \<Rightarrow> real \<Rightarrow> error + real list" where
  "get_thetas_for_exponential layers scale =
     (if layers = 0 then Inl ZeroDivisionError
      else
        (let prob_one = scale / real_of_int layers in
         if \<not> (0 \<le> prob_one \<and> prob_one \<le> 1)
         then Inl (ValueError (ScaleNotValid scale layers))
         else (let theta = 2 * arcsin (sqrt prob_one) in Inr (replicate (nat layers) theta))))"

definition get_thetas_for_hadamard_walk :: "int \<Rightarrow> real list option" where
  "get_thetas_for_hadamard_walk layers = None"

section \<open>analysis.py: get_target_distribution\<close>

text \<open>
  \<^verbatim>\<open>scipy.stats.binom.pmf(k, n, p)\<close>, the probability mass of the binomial distribution at
  \<open>k\<close> in \<open>0..n\<close>.
\<close>

definition binom_pmf :: "int \<Rightarrow> real \<Rightarrow> int \<Rightarrow> real" where
  "binom_pmf n p k = real (nat n choose nat k) * p ^ nat k * (1 - p) ^ nat (n - k)"

text \<open>
  \<^verbatim>\<open>get_target_distribution(dist_type, layers, scale=3.0)\<close>; the argument \<open>scale_arg\<close> is
  \<open>None\<close> when the caller leaves \<open>scale\<close> out.
\<close>

definition get_target_distribution :: "string \<Rightarrow> int \<Rightarrow> real option \<Rightarrow> error + dist" where
  "get_target_distribution dist_type layers scale_arg =
     (let scale = (case scale_arg of None \<Rightarrow> 3 | Some s \<Rightarrow> s);
          bins = [0..layers]
      in if dist_type = ''normal''
         then Inr (zip bins (map (binom_pmf layers (1 / 2)) bins))
         else if dist_type = ''exponential''
         then
           (if layers = 0 then Inl ZeroDivisionError
            else
              (let prob_one = scale / real_of_int layers in
               if \<not> (0 \<le> prob_one \<and> prob_one \<le> 1)
               then Inl (ValueError (ScaleNotValid scale layers))
               else Inr (zip bins (map (binom_pmf layers prob_one) bins))))
         else Inl (ValueError (UnknownDistributionType dist_type)))"

section \<open>Python and numpy primitives used by the statistics\<close>

text \<open>\<^verbatim>\<open>d.get(k, dflt)\<close>\<close>

definition dict_get :: "('k \<times> 'v) list \<Rightarrow> 'k \<Rightarrow> 'v \<Rightarrow> 'v" where
  "dict_get d k dflt = (case map_of d k of None \<Rightarrow> dflt | Some v \<Rightarrow> v)"

text \<open>
  A comprehension \<^verbatim>\<open>[f(x) for x in xs]\<close> whose element expression may raise: the first
  failure ends it.
\<close>

fun collect :: "('a \<Rightarrow> error + 'b) \<Rightarrow> 'a list \<Rightarrow> error + 'b list" where
  "collect f [] = Inr []"
| "collect f (x # xs) =
     (case f x of
        Inl e \<Rightarrow> Inl e
      | Inr y \<Rightarrow> (case collect f xs of Inl e \<Rightarrow> Inl e | Inr ys \<Rightarrow> Inr (y # ys)))"

text \<open>Python's \<^verbatim>\<open>a / b\<close> on integers raises for \<open>b = 0\<close>.\<close>

definition true_div :: "int \<Rightarrow> int \<Rightarrow> error + real" where
  "true_div a b = (if b = 0 then Inl ZeroDivisionError else Inr (real_of_int a / real_of_int b))"

text \<open>
  numpy's \<^verbatim>\<open>a / b\<close> on a numpy integer \<open>a\<close> does not raise for \<open>b = 0\<close>: it warns and
  yields \<^verbatim>\<open>nan\<close> or \<^verbatim>\<open>inf\<close>.
\<close>

definition np_div :: "int \<Rightarrow> int \<Rightarrow> error + real" where
  "np_div a b = (if b = 0 then Inl NonFinite else Inr (real_of_int a / real_of_int b))"

text \<open>\<^verbatim>\<open>format(i, f'0{layers}b')\<close>: the binary digits of \<open>i\<close>, zero-padded to the width.\<close>

fun bin_digits :: "nat \<Rightarrow> string" where
  "bin_digits n =
     (if n < 2 then [''01'' ! n] else bin_digits (n div 2) @ [''01'' ! (n mod 2)])"

definition format_bin :: "int \<Rightarrow> nat \<Rightarrow> string" where
  "format_bin layers i =
     (let digits = bin_digits i
      in replicate (nat layers - length digits) (CHR ''0'') @ digits)"

text \<open>
  \<^verbatim>\<open>int(bitstr, 2)\<close> on the keys the execution returns, strings of the digits 0 and 1.
  Every other string is reported as the ValueError of an invalid literal (Python itself
  also reads a sign, a \<^verbatim>\<open>0b\<close> prefix, underscores and surrounding blanks, which no key of a
  counts mapping has).
\<close>

definition int_base2 :: "string \<Rightarrow> error + int" where
  "int_base2 bitstr =
     (if bitstr \<noteq> [] \<and> list_all (\<lambda>c. c = CHR ''0'' \<or> c = CHR ''1'') bitstr
      then Inr (foldl (\<lambda>acc c. 2 * acc + (if c = CHR ''1'' then 1 else 0)) 0 bitstr)
      else Inl (ValueError (InvalidLiteral bitstr)))"

text \<open>
  A list of computed floats, each a real number or \<open>Inl NonFinite\<close>: \<open>all_finite\<close> is
  the list of reals when every entry is one.
\<close>

fun all_finite :: "(error + real) list \<Rightarrow> real list option" where
  "all_finite [] = Some []"
| "all_finite (Inl e # xs) = None"
| "all_finite (Inr x # xs) = (case all_finite xs of None \<Rightarrow> None | Some ys \<Rightarrow> Some (x # ys))"

text \<open>\<^verbatim>\<open>np.mean\<close> of a non-empty sample.\<close>

definition mean :: "real list \<Rightarrow> real" where
  "mean a = sum_list a / real (length a)"

text \<open>
  \<^verbatim>\<open>np.percentile(a, q)\<close> of a non-empty sample with numpy's default linear
  interpolation: in the sorted sample, the value at the position \<open>(n - 1) * q / 100\<close>,
  interpolated between the two neighbouring entries.
\<close>

definition percentile :: "real list \<Rightarrow> real \<Rightarrow> real" where
  "percentile a q =
     (let s = sort a;
          n = length a;
          pos = real (n - 1) * (q / 100);
          i = nat \<lfloor>pos\<rfloor>;
          j = min (i + 1) (n - 1)
      in s ! i + (pos - real i) * (s ! j - s ! i))"

section \<open>analysis.py: kl_divergence and bootstrap_distance\<close>

definition epsilon :: real where
  "epsilon = 1 / 10 ^ 12"

text \<open>
  One summand \<^verbatim>\<open>p * log(p / q)\<close>. numpy does not raise on a zero divisor or on the
  logarithm of a non-positive number: the summand is then \<^verbatim>\<open>nan\<close> or infinite.
\<close>

definition kl_term :: "real \<Rightarrow> real \<Rightarrow> error + real" where
  "kl_term a b = (if b = 0 \<or> a / b \<le> 0 then Inl NonFinite else Inr (a * ln (a / b)))"

text \<open>
  \<^verbatim>\<open>kl_divergence(p, q)\<close> on dictionaries with float values (on integer values numpy's
  in-place \<^verbatim>\<open>+=\<close> of the float epsilon would not be accepted).
\<close>

definition kl_divergence :: "dist \<Rightarrow> dist \<Rightarrow> error + real" where
  "kl_divergence p q =
     (let all_keys = sort (remdups (map fst p @ map fst q));
          p_vals = map (\<lambda>k. dict_get p k 0 + epsilon) all_keys;
          q_vals = map (\<lambda>k. dict_get q k 0 + epsilon) all_keys
      in case collect (\<lambda>(a, b). kl_term a b) (zip p_vals q_vals) of
           Inl e \<Rightarrow> Inl e
         | Inr terms \<Rightarrow> Inr (sum_list terms))"

text \<open>
  The generator: \<open>multinomial g n pvals\<close> is \<^verbatim>\<open>np.random.multinomial(n, pvals)\<close> in the
  generator state \<open>g\<close>; it returns the drawn counts and the next state, or the error
  numpy raises for arguments it refuses.
\<close>

type_synonym 'g sampler = "'g \<Rightarrow> int \<Rightarrow> real list \<Rightarrow> error + (int list \<times> 'g)"

text \<open>
  The loop \<^verbatim>\<open>for _ in range(n_boot)\<close> of \<open>bootstrap_distance\<close>; the result lists the
  distances in the order they were appended.
\<close>

fun distance_loop ::
  "'g sampler \<Rightarrow> int \<Rightarrow> real list \<Rightarrow> int \<Rightarrow> dist \<Rightarrow> nat \<Rightarrow> 'g
     \<Rightarrow> error + ((error + real) list \<times> 'g)" where
  "distance_loop multinomial num_shots raw_p_vec layers target_dist 0 g = Inr ([], g)"
| "distance_loop multinomial num_shots raw_p_vec layers target_dist (Suc n) g =
     (case multinomial g num_shots raw_p_vec of
        Inl e \<Rightarrow> Inl e
      | Inr (resampled_raw_counts_arr, g') \<Rightarrow>
          (let resampled_raw_counts_dict =
                 map (\<lambda>(i, count). (format_bin layers i, count))
                   (enumerate 0 resampled_raw_counts_arr)
           in case process_results resampled_raw_counts_dict layers of
                Inl e \<Rightarrow> Inl e
              | Inr resampled_dist \<Rightarrow>
                  (let dist = kl_divergence resampled_dist target_dist
                   in case distance_loop multinomial num_shots raw_p_vec layers target_dist n g' of
                        Inl e \<Rightarrow> Inl e
                      | Inr (distances, g'') \<Rightarrow> Inr (dist # distances, g''))))"

text \<open>
  \<^verbatim>\<open>bootstrap_distance(counts, layers, target_dist, n_boot=500)\<close>; \<open>n_boot_arg\<close> is \<open>None\<close>
  when the caller leaves \<open>n_boot\<close> out. \<^verbatim>\<open>range(2**layers)\<close> is a TypeError for a negative
  \<open>layers\<close> (the power is a float). The result is the returned triple and the generator
  state. When a divergence is \<^verbatim>\<open>nan\<close> or infinite, so is the mean, and the call still
  returns: \<open>NotFinite\<close>. With no resample at all (\<open>n_boot \<le> 0\<close>) the percentile of the empty
  list raises.
\<close>

definition bootstrap_distance ::
  "'g sampler \<Rightarrow> 'g \<Rightarrow> counts \<Rightarrow> int \<Rightarrow> dist \<Rightarrow> int option
     \<Rightarrow> error + ((real \<times> real \<times> real) returned \<times> 'g)" where
  "bootstrap_distance multinomial g counts layers target_dist n_boot_arg =
     (let n_boot = (case n_boot_arg of None \<Rightarrow> 500 | Some n \<Rightarrow> n);
          num_shots = total_counts counts
      in if layers < 0 then Inl TypeError
         else
           (case collect (\<lambda>i. true_div (dict_get counts (format_bin layers i) 0) num_shots)
                   [0..<2 ^ nat layers] of
              Inl e \<Rightarrow> Inl e
            | Inr raw_p_vec \<Rightarrow>
                (case distance_loop multinomial num_shots raw_p_vec layers target_dist
                        (nat n_boot) g of
                   Inl e \<Rightarrow> Inl e
                 | Inr (distances, g') \<Rightarrow>
                     if distances = [] then Inl EmptySampleError
                     else
                       (case all_finite distances of
                          None \<Rightarrow> Inr (NotFinite, g')
                        | Some ds \<Rightarrow>
                            Inr (Finite (mean ds, percentile ds (5 / 2), percentile ds (195 / 2)),
                                 g')))))"

section \<open>quantum_simulation.py\<close>

text \<open>The loop of \<open>full_counts_probs\<close>: \<^verbatim>\<open>probs[int(bitstr, 2)] = cnt / shots_total\<close>.\<close>

fun set_probs :: "dist \<Rightarrow> int \<Rightarrow> counts \<Rightarrow> error + dist" where
  "set_probs probs shots_total [] = Inr probs"
| "set_probs probs shots_total ((bitstr, cnt) # rest) =
     (case int_base2 bitstr of
        Inl e \<Rightarrow> Inl e
      | Inr j \<Rightarrow>
          (case true_div cnt shots_total of
             Inl e \<Rightarrow> Inl e
           | Inr v \<Rightarrow> set_probs (AList.update j v probs) shots_total rest))"

text \<open>
  \<^verbatim>\<open>full_counts_probs(counts, num_bits)\<close>. Both branches build
  \<^verbatim>\<open>{j: 0.0 for j in range(2**num_bits)}\<close>, a TypeError for a negative \<open>num_bits\<close>.
\<close>

definition full_counts_probs :: "counts \<Rightarrow> int \<Rightarrow> error + dist" where
  "full_counts_probs counts num_bits =
     (let shots_total = total_counts counts
      in if num_bits < 0 then Inl TypeError
         else if shots_total = 0
         then Inr (map (\<lambda>j. (int j, 0)) [0..<2 ^ nat num_bits])
         else set_probs (map (\<lambda>j. (int j, 0)) [0..<2 ^ nat num_bits]) shots_total counts)"

text \<open>
  \<^verbatim>\<open>weighted_estimator_from_probs(probs, m)\<close> over the reals: the accumulation
  \<^verbatim>\<open>s += ...\<close> from 0.
\<close>

definition weighted_estimator_from_probs :: "dist \<Rightarrow> int \<Rightarrow> real" where
  "weighted_estimator_from_probs probs m =
     foldl (\<lambda>s (j, pj).
              (let phase = real_of_int j / (2 powi m)
               in s + pj * (sin (pi * phase))\<^sup>2))
       0 probs"

text \<open>
  The loop of \<open>bootstrap_ci\<close>. \<^verbatim>\<open>count / shots\<close> divides a numpy integer, so \<open>shots = 0\<close>
  gives non-finite probabilities, not an exception; the estimate is then \<^verbatim>\<open>nan\<close>, since
  its first summand multiplies such a probability by \<open>sin\<^sup>2 0 = 0\<close>.
\<close>

fun estimate_loop ::
  "'g sampler \<Rightarrow> int \<Rightarrow> real list \<Rightarrow> int \<Rightarrow> nat \<Rightarrow> 'g \<Rightarrow> error + ((error + real) list \<times> 'g)" where
  "estimate_loop multinomial shots pvec m 0 g = Inr ([], g)"
| "estimate_loop multinomial shots pvec m (Suc n) g =
     (case multinomial g shots pvec of
        Inl e \<Rightarrow> Inl e
      | Inr (resampled_counts, g') \<Rightarrow>
          (let est =
                 (case collect (\<lambda>(j, count).
                           case np_div count shots of
                             Inl e \<Rightarrow> Inl e
                           | Inr v \<Rightarrow> Inr (int j, v))
                         (enumerate 0 resampled_counts) of
                    Inl e \<Rightarrow> Inl e
                  | Inr resampled_probs \<Rightarrow> Inr (weighted_estimator_from_probs resampled_probs m))
           in case estimate_loop multinomial shots pvec m n g' of
                Inl e \<Rightarrow> Inl e
              | Inr (estimates, g'') \<Rightarrow> Inr (est # estimates, g'')))"

text \<open>
  \<^verbatim>\<open>bootstrap_ci(counts, m, shots, n_boot)\<close>. The parameter \<open>n_boot\<close> has no default in
  the source: a call that leaves it out (\<open>None\<close>) is a TypeError before the body runs.
  When an estimate is \<^verbatim>\<open>nan\<close> (as all are for \<open>shots = 0\<close>), both percentiles are \<^verbatim>\<open>nan\<close> and
  the call returns them: \<open>NotFinite\<close>. With no resample at all (\<open>n_boot \<le> 0\<close>) the percentile
  of the empty array raises.
\<close>

definition bootstrap_ci ::
  "'g sampler \<Rightarrow> 'g \<Rightarrow> counts \<Rightarrow> int \<Rightarrow> int \<Rightarrow> int option
     \<Rightarrow> error + ((real \<times> real) returned \<times> 'g)" where
  "bootstrap_ci multinomial g counts m shots n_boot_arg =
     (case n_boot_arg of
        None \<Rightarrow> Inl TypeError
      | Some n_boot \<Rightarrow>
          (case full_counts_probs counts m of
             Inl e \<Rightarrow> Inl e
           | Inr probs \<Rightarrow>
               (let pvec = map (\<lambda>j. dict_get probs (int j) 0) [0..<2 ^ nat m]
                in case estimate_loop multinomial shots pvec m (nat n_boot) g of
                     Inl e \<Rightarrow> Inl e
                   | Inr (estimates, g') \<Rightarrow>
                       if estimates = [] then Inl EmptySampleError
                       else
                         (case all_finite estimates of
                            None \<Rightarrow> Inr (NotFinite, g')
                          | Some arr \<Rightarrow>
                              Inr (Finite (percentile arr (5 / 2), percentile arr (195 / 2)),
                                   g')))))"

text \<open>
  The analysis that \<open>run_qae_simulation\<close> performs on the counts of one execution
  (ideal or noisy) for one \<open>m\<close>: the point estimate from the counts themselves, and the
  interval from \<open>bootstrap_ci\<close> with \<^verbatim>\<open>n_boot=200\<close>. The three numbers it appends to the
  result lists are \<open>(p_est, lo, hi)\<close>.
\<close>

definition run_qae_analysis ::
  "'g sampler \<Rightarrow> 'g \<Rightarrow> counts \<Rightarrow> int \<Rightarrow> int
     \<Rightarrow> error + ((real \<times> real \<times> real) returned \<times> 'g)" where
  "run_qae_analysis multinomial g counts m shots =
     (case full_counts_probs counts m of
        Inl e \<Rightarrow> Inl e
      | Inr probs \<Rightarrow>
          (let p_est = weighted_estimator_from_probs probs m
           in case bootstrap_ci multinomial g counts m shots (Some 200) of
                Inl e \<Rightarrow> Inl e
              | Inr (NotFinite, g') \<Rightarrow> Inr (NotFinite, g')
              | Inr (Finite (lo, hi), g') \<Rightarrow> Inr (Finite (p_est, lo, hi), g')))"

section \<open>quantum_simulation.py: the estimator in binary64 arithmetic\<close>

text \<open>
  Python's floats are IEEE 754 binary64 numbers, and each arithmetic operation returns
  the representable number nearest to the exact result, ties going to the even
  significand. \<open>f64_round\<close> is that rounding on the reals: a number in the binade
  \<open>[2^k, 2^(k+1))\<close> is rounded to a multiple of \<open>2^(k-52)\<close>, with the exponent held at
  \<open>-1022\<close> for subnormal numbers. Overflow to infinity is not modelled.
\<close>

definition round_half_even :: "real \<Rightarrow> int" where
  "round_half_even x =
     (let f = \<lfloor>x\<rfloor>; r = x - of_int f
      in if r < 1 / 2 then f
         else if 1 / 2 < r then f + 1
         else if even f then f else f + 1)"

definition f64_round :: "real \<Rightarrow> real" where
  "f64_round x =
     (if x = 0 then 0
      else
        (let e = max \<lfloor>log 2 \<bar>x\<bar>\<rfloor> (- 1022) - 52
         in of_int (round_half_even (x / 2 powi e)) * 2 powi e))"

text \<open>Float multiplication and addition.\<close>

definition f64_mul :: "real \<Rightarrow> real \<Rightarrow> real" where
  "f64_mul a b = f64_round (a * b)"

definition f64_add :: "real \<Rightarrow> real \<Rightarrow> real" where
  "f64_add a b = f64_round (a + b)"

text \<open>\<^verbatim>\<open>math.pi\<close>, the binary64 number nearest to \<open>pi\<close>: \<^verbatim>\<open>0x1.921fb54442d18p+1\<close>.\<close>

definition math_pi :: real where
  "math_pi = 884279719003555 / 2 ^ 48"

text \<open>
  \<^verbatim>\<open>math.sin(x)\<close> and \<^verbatim>\<open>x ** 2\<close> call the sine and the power function of the platform's C
  library. Each is taken to return the binary64 number nearest to the exact result.
\<close>

definition math_sin :: "real \<Rightarrow> real" where
  "math_sin x = f64_round (sin x)"

definition f64_square :: "real \<Rightarrow> real" where
  "f64_square x = f64_round (x * x)"

text \<open>
  \<^verbatim>\<open>weighted_estimator_from_probs(probs, m)\<close> as the floats compute it, on probabilities
  that are binary64 numbers: \<^verbatim>\<open>phase = j / (2**m)\<close> is the correctly rounded quotient, and
  \<^verbatim>\<open>s += pj * (math.sin(math.pi * phase))**2\<close> rounds after the product with \<^verbatim>\<open>math.pi\<close>,
  the sine, the square, the product with \<open>pj\<close> and the sum.
\<close>

definition weighted_estimator_from_probs_f64 :: "dist \<Rightarrow> int \<Rightarrow> real" where
  "weighted_estimator_from_probs_f64 probs m =
     foldl (\<lambda>s (j, pj).
              (let phase = f64_round (real_of_int j / (2 powi m))
               in f64_add s (f64_mul pj (f64_square (math_sin (f64_mul math_pi phase))))))
       0 probs"

section \<open>Notions used to state the properties\<close>

text \<open>The weight of phase bin \<open>j\<close> in the estimator: \<open>sin\<^sup>2 (pi * j / 2^m)\<close>.\<close>

definition bin_weight :: "int \<Rightarrow> int \<Rightarrow> real" where
  "bin_weight m j = (sin (pi * (real_of_int j / (2 powi m))))\<^sup>2"

text \<open>The same weight as the floats compute it.\<close>

definition f64_bin_weight :: "int \<Rightarrow> int \<Rightarrow> real" where
  "f64_bin_weight m j =
     f64_square (math_sin (f64_mul math_pi (f64_round (real_of_int j / (2 powi m)))))"

text \<open>The linear interpolation inside \<open>percentile\<close>, on a sorted sample.\<close>

definition interp :: "real list \<Rightarrow> real \<Rightarrow> real" where
  "interp s pos =
     (let i = nat \<lfloor>pos\<rfloor>; j = min (i + 1) (length s - 1)
      in s ! i + (pos - real i) * (s ! j - s ! i))"

text \<open>
  A generator instrumented with the number of draws made so far: every call of
  \<open>multinomial\<close> that returns adds one.
\<close>

definition count_draws :: "'g sampler \<Rightarrow> ('g \<times> nat) sampler" where
  "count_draws multinomial =
     (\<lambda>(g, c) n pvals.
        case multinomial g n pvals of
          Inl e \<Rightarrow> Inl e
        | Inr (arr, g') \<Rightarrow> Inr (arr, (g', Suc c)))"

text \<open>A mapping whose values are all non-negative.\<close>

definition nonneg_dist :: "dist \<Rightarrow> bool" where
  "nonneg_dist p = list_all (\<lambda>(k, v). 0 \<le> v) p"

text \<open>The \<open>all_keys\<close> of \<open>kl_divergence\<close>: the sorted union of the two key sets.\<close>

definition all_keys_of :: "dist \<Rightarrow> dist \<Rightarrow> int list" where
  "all_keys_of p q = sort (remdups (map fst p @ map fst q))"

text \<open>
  Two generators used as concrete inputs, with a natural number as state. The first
  draws the counts \<open>[2, 0]\<close> once and \<open>[1, 1]\<close> ever after; the second always puts all
  \<open>n\<close> shots into the first of two outcomes. Each draw is a possible result of
  \<^verbatim>\<open>np.random.multinomial(2, [0.5, 0.5])\<close>.
\<close>

definition draws_one_skewed :: "nat sampler" where
  "draws_one_skewed g n pvals = Inr (if g = 0 then [2, 0] else [1, 1], Suc g)"

definition draws_all_first :: "nat sampler" where
  "draws_all_first g n pvals = Inr ([n, 0], Suc g)"

section \<open>Properties of process_results\<close>

lemma map_fst_update_present:
  "map_of bins k = Some v \<Longrightarrow> map fst (AList.update k w bins) = map fst bins"
  by (induction bins) (auto split: if_splits)

lemma sum_snd_update_present:
  fixes bins :: "(int \<times> int) list"
  shows "distinct (map fst bins) \<Longrightarrow> map_of bins k = Some v \<Longrightarrow>
    sum_list (map snd (AList.update k w bins)) = sum_list (map snd bins) - v + w"
proof (induction bins)
  case Nil
  then show ?case by simp
next
  case (Cons a bins)
  obtain k' v' where a: "a = (k', v')" by (cases a)
  show ?case
  proof (cases "k' = k")
    case True
    with Cons.prems a show ?thesis by simp
  next
    case False
    with Cons a show ?thesis by simp
  qed
qed

lemma bin_add_keys:
  "bin_add bins k c = Inr bins' \<Longrightarrow> map fst bins' = map fst bins"
  by (auto simp: bin_add_def map_fst_update_present split: option.splits)

lemma bin_add_sum:
  "distinct (map fst bins) \<Longrightarrow> bin_add bins k c = Inr bins' \<Longrightarrow>
     sum_list (map snd bins') = sum_list (map snd bins) + c"
  by (auto simp: bin_add_def sum_snd_update_present split: option.splits)

lemma bin_add_present:
  "k \<in> set (map fst bins) \<Longrightarrow> \<exists>bins'. bin_add bins k c = Inr bins'"
  by (cases "map_of bins k") (auto simp: bin_add_def map_of_eq_None_iff)

lemma bin_add_absent:
  "k \<notin> set (map fst bins) \<Longrightarrow> bin_add bins k c = Inl (KeyError k)"
  by (cases "map_of bins k") (auto simp: bin_add_def map_of_eq_None_iff [symmetric])

lemma fill_bins_keys:
  "fill_bins bins counts = Inr bins' \<Longrightarrow> map fst bins' = map fst bins"
proof (induction counts arbitrary: bins)
  case Nil
  then show ?case by simp
next
  case (Cons a counts)
  obtain b c where a: "a = (b, c)" by (cases a)
  from Cons.prems a obtain mid where
    mid: "bin_add bins (count_ones b) c = Inr mid" and rest: "fill_bins mid counts = Inr bins'"
    by (auto split: sum.splits)
  from Cons.IH [OF rest] bin_add_keys [OF mid] show ?case by simp
qed

lemma fill_bins_sum:
  "distinct (map fst bins) \<Longrightarrow> fill_bins bins counts = Inr bins' \<Longrightarrow>
     sum_list (map snd bins') = sum_list (map snd bins) + total_counts counts"
proof (induction counts arbitrary: bins)
  case Nil
  then show ?case by (simp add: total_counts_def)
next
  case (Cons a counts)
  obtain b c where a: "a = (b, c)" by (cases a)
  from Cons.prems a obtain mid where
    mid: "bin_add bins (count_ones b) c = Inr mid" and rest: "fill_bins mid counts = Inr bins'"
    by (auto split: sum.splits)
  have keys: "map fst mid = map fst bins" by (rule bin_add_keys [OF mid])
  with Cons.prems have "distinct (map fst mid)" by simp
  from Cons.IH [OF this rest] bin_add_sum [OF Cons.prems(1) mid] a
  show ?case by (simp add: total_counts_def)
qed

lemma count_ones_nonneg: "0 \<le> count_ones b"
  by (simp add: count_ones_def)

lemma fill_bins_total:
  "map fst bins = [0..layers] \<Longrightarrow> ones_within layers counts \<Longrightarrow>
     \<exists>bins'. fill_bins bins counts = Inr bins'"
proof (induction counts arbitrary: bins)
  case Nil
  then show ?case by simp
next
  case (Cons a counts)
  obtain b c where a: "a = (b, c)" by (cases a)
  from Cons.prems a have le: "count_ones b \<le> layers" and rest: "ones_within layers counts"
    by (simp_all add: ones_within_def)
  from le count_ones_nonneg [of b] Cons.prems(1) have "count_ones b \<in> set (map fst bins)"
    by simp
  then obtain mid where mid: "bin_add bins (count_ones b) c = Inr mid"
    using bin_add_present by blast
  from bin_add_keys [OF mid] Cons.prems(1) have "map fst mid = [0..layers]" by simp
  from Cons.IH [OF this rest] mid a show ?case by simp
qed

lemma fill_bins_KeyError:
  "map fst bins = [0..layers] \<Longrightarrow> \<not> ones_within layers counts \<Longrightarrow>
     \<exists>k. layers < k \<and> fill_bins bins counts = Inl (KeyError k)"
proof (induction counts arbitrary: bins)
  case Nil
  then show ?case by (simp add: ones_within_def)
next
  case (Cons a counts)
  obtain b c where a: "a = (b, c)" by (cases a)
  show ?case
  proof (cases "count_ones b \<le> layers")
    case True
    with Cons.prems a have rest: "\<not> ones_within layers counts"
      by (simp add: ones_within_def)
    from True count_ones_nonneg [of b] Cons.prems(1) have "count_ones b \<in> set (map fst bins)"
      by simp
    then obtain mid where mid: "bin_add bins (count_ones b) c = Inr mid"
      using bin_add_present by blast
    from bin_add_keys [OF mid] Cons.prems(1) have "map fst mid = [0..layers]" by simp
    from Cons.IH [OF this rest] mid a show ?thesis by simp
  next
    case False
    with Cons.prems(1) have "count_ones b \<notin> set (map fst bins)" by simp
    from bin_add_absent [OF this] a False show ?thesis by auto
  qed
qed

lemma zero_bins_keys: "map fst (zero_bins layers) = [0..layers]"
  by (simp add: zero_bins_def comp_def)

lemma zero_bins_sum: "sum_list (map snd (zero_bins layers)) = 0"
  by (simp add: zero_bins_def comp_def)

lemma sum_list_scaled:
  fixes bins :: "(int \<times> int) list"
  shows "sum_list (map snd (map (\<lambda>(k, v). (k, real_of_int v / n)) bins))
     = real_of_int (sum_list (map snd bins)) / n"
  by (induction bins) (auto simp: add_divide_distrib)

lemma map_fst_scaled:
  "map fst (map (\<lambda>(k, v). (k, f v)) bins) = map fst bins"
  by (induction bins) auto

lemma process_results_zero:
  "total_counts counts = 0 \<Longrightarrow> process_results counts layers = Inr (map (\<lambda>k. (k, 0)) [0..layers])"
  by (simp add: process_results_def)

lemma process_results_nonzero:
  assumes "total_counts counts \<noteq> 0" and "ones_within layers counts"
  shows "\<exists>d. process_results counts layers = Inr d \<and> map fst d = [0..layers]
           \<and> sum_list (map snd d) = 1"
proof -
  from fill_bins_total [OF zero_bins_keys assms(2)]
  obtain bins where bins: "fill_bins (zero_bins layers) counts = Inr bins" by blast
  have keys: "map fst bins = [0..layers]"
    using fill_bins_keys [OF bins] zero_bins_keys by simp
  have "distinct (map fst (zero_bins layers))" by (simp add: zero_bins_keys)
  from fill_bins_sum [OF this bins] have total: "sum_list (map snd bins) = total_counts counts"
    by (simp add: zero_bins_sum)
  let ?d = "map (\<lambda>(k, v). (k, real_of_int v / real_of_int (total_counts counts))) bins"
  have res: "process_results counts layers = Inr ?d"
    using assms(1) bins by (simp add: process_results_def)
  have dkeys: "map fst ?d = [0..layers]"
    using keys by (simp only: map_fst_scaled)
  have dsum: "sum_list (map snd ?d) = 1"
    using assms(1) total by (simp only: sum_list_scaled) simp
  from res dkeys dsum show ?thesis by blast
qed

lemma process_results_KeyError:
  assumes "total_counts counts \<noteq> 0" and "\<not> ones_within layers counts"
  shows "\<exists>k. layers < k \<and> process_results counts layers = Inl (KeyError k)"
proof -
  from fill_bins_KeyError [OF zero_bins_keys assms(2)]
  obtain k where "layers < k" and "fill_bins (zero_bins layers) counts = Inl (KeyError k)"
    by blast
  with assms(1) show ?thesis by (auto simp: process_results_def)
qed

section \<open>Claims about process_results\<close>

text \<open>
  C1. When the counts sum to 0, \<open>process_results counts L\<close> returns the bins \<open>0..L\<close>, all 0,
  and no division takes place. When the counts sum to a positive number and no bitstring
  has more than \<open>L\<close> ones, it returns a distribution whose keys are exactly \<open>0..L\<close>, in this
  order, and whose values sum to 1 (exactly, over the reals).
\<close>

theorem process_results_distribution:
  "(total_counts counts = 0 \<longrightarrow>
      process_results counts L = Inr (map (\<lambda>k. (k, 0)) [0..L])) \<and>
   (0 < total_counts counts \<and> ones_within L counts \<longrightarrow>
      (\<exists>d. process_results counts L = Inr d \<and> map fst d = [0..L] \<and> sum_list (map snd d) = 1))"
  using process_results_zero [of counts L] process_results_nonzero [of counts L] by auto

theorem process_results_distribution_witness:
  "total_counts [] = 0 \<and> process_results [] 2 = Inr [(0, 0), (1, 0), (2, 0)] \<and>
   0 < total_counts [(''01'', 3), (''11'', 1)] \<and> ones_within 2 [(''01'', 3), (''11'', 1)] \<and>
   (\<exists>d. process_results [(''01'', 3), (''11'', 1)] 2 = Inr d \<and> map fst d = [0, 1, 2]
      \<and> sum_list (map snd d) = 1)"
proof -
  have upto: "[0..2::int] = [0, 1, 2]" by (simp add: upto.simps)
  have a: "total_counts [] = 0" by (simp add: total_counts_def)
  have b: "0 < total_counts [(''01'', 3), (''11'', 1)]" by (simp add: total_counts_def)
  have c: "ones_within 2 [(''01'', 3), (''11'', 1)]"
    by (simp add: ones_within_def count_ones_def)
  from process_results_distribution [of "[]" 2] a
  have d: "process_results [] 2 = Inr [(0, 0), (1, 0), (2, 0)]" by (simp add: upto)
  from process_results_distribution [of "[(''01'', 3), (''11'', 1)]" 2] b c
  have e: "\<exists>d. process_results [(''01'', 3), (''11'', 1)] 2 = Inr d \<and> map fst d = [0, 1, 2]
      \<and> sum_list (map snd d) = 1" by (simp add: upto)
  from a b c d e show ?thesis by blast
qed

text \<open>
  C10. \<open>process_results\<close> returns for every input only under the precondition that no
  bitstring has more than \<open>L\<close> ones. With a non-zero total, it returns a distribution
  when the precondition holds, and when some bitstring has more than \<open>L\<close> ones it fails
  with \<open>KeyError k\<close> for a bin \<open>k > L\<close> that is not among the keys \<open>0..L\<close>.
\<close>

theorem process_results_missing_key:
  "total_counts counts \<noteq> 0 \<Longrightarrow>
     (ones_within L counts \<longrightarrow> (\<exists>d. process_results counts L = Inr d)) \<and>
     (\<not> ones_within L counts \<longrightarrow> (\<exists>k. L < k \<and> process_results counts L = Inl (KeyError k)))"
  using process_results_nonzero [of counts L] process_results_KeyError [of counts L] by blast

theorem process_results_missing_key_witness:
  "total_counts [(''0'', 1), (''11'', 1)] \<noteq> 0 \<and> \<not> ones_within 1 [(''0'', 1), (''11'', 1)] \<and>
   process_results [(''0'', 1), (''11'', 1)] 1 = Inl (KeyError 2) \<and>
   total_counts [(''0'', 1), (''1'', 1)] \<noteq> 0 \<and> ones_within 1 [(''0'', 1), (''1'', 1)] \<and>
   (\<exists>d. process_results [(''0'', 1), (''1'', 1)] 1 = Inr d)"
proof -
  have upto: "[0..1::int] = [0, 1]" by (simp add: upto.simps)
  have a: "total_counts [(''0'', 1), (''11'', 1)] \<noteq> 0" by (simp add: total_counts_def)
  have b: "\<not> ones_within 1 [(''0'', 1), (''11'', 1)]"
    by (simp add: ones_within_def count_ones_def)
  have c: "process_results [(''0'', 1), (''11'', 1)] 1 = Inl (KeyError 2)"
    by (simp add: process_results_def total_counts_def zero_bins_def upto bin_add_def
        count_ones_def)
  have d: "total_counts [(''0'', 1), (''1'', 1)] \<noteq> 0" by (simp add: total_counts_def)
  have e: "ones_within 1 [(''0'', 1), (''1'', 1)]"
    by (simp add: ones_within_def count_ones_def)
  from process_results_missing_key [OF d] e
  have f: "\<exists>d. process_results [(''0'', 1), (''1'', 1)] 1 = Inr d" by blast
  from process_results_missing_key [OF a] b c
  have "\<exists>k. 1 < k \<and> process_results [(''0'', 1), (''11'', 1)] 1 = Inl (KeyError k)" by blast
  with a b c d e f show ?thesis by blast
qed

section \<open>Percentiles are monotone in the rank\<close>

lemma percentile_interp: "percentile a q = interp (sort a) (real (length a - 1) * (q / 100))"
  by (simp add: percentile_def interp_def Let_def)

lemma interp_bounds:
  assumes "sorted s" and "0 \<le> pos" and "pos \<le> real (length s - 1)" and "s \<noteq> []"
  shows "s ! nat \<lfloor>pos\<rfloor> \<le> interp s pos"
    and "interp s pos \<le> s ! min (nat \<lfloor>pos\<rfloor> + 1) (length s - 1)"
proof -
  let ?i = "nat \<lfloor>pos\<rfloor>"
  let ?j = "min (?i + 1) (length s - 1)"
  have ri: "real ?i = of_int \<lfloor>pos\<rfloor>" using assms(2) by simp
  have frac0: "0 \<le> pos - real ?i" using ri by linarith
  have frac1: "pos - real ?i \<le> 1" using ri by linarith
  have "real ?i \<le> real (length s - 1)" using ri assms(3) by linarith
  then have ile: "?i \<le> length s - 1" by simp
  have jlt: "?j < length s" using assms(4) by (cases s) auto
  have ij: "?i \<le> ?j" using ile by simp
  have le: "s ! ?i \<le> s ! ?j" by (rule sorted_nth_mono [OF assms(1) ij jlt])
  then have d0: "0 \<le> s ! ?j - s ! ?i" by simp
  have "0 \<le> (pos - real ?i) * (s ! ?j - s ! ?i)"
    using frac0 d0 by (rule mult_nonneg_nonneg)
  then show "s ! ?i \<le> interp s pos" by (simp add: interp_def Let_def)
  have "(pos - real ?i) * (s ! ?j - s ! ?i) \<le> 1 * (s ! ?j - s ! ?i)"
    using frac1 d0 by (rule mult_right_mono)
  then show "interp s pos \<le> s ! ?j" by (simp add: interp_def Let_def)
qed

lemma interp_mono:
  assumes "sorted s" and "s \<noteq> []" and "0 \<le> p1" and "p1 \<le> p2" and "p2 \<le> real (length s - 1)"
  shows "interp s p1 \<le> interp s p2"
proof (cases "\<lfloor>p1\<rfloor> = \<lfloor>p2\<rfloor>")
  case True
  let ?i = "nat \<lfloor>p1\<rfloor>"
  let ?j = "min (?i + 1) (length s - 1)"
  have ri: "real ?i = of_int \<lfloor>p1\<rfloor>" using assms(3) by simp
  have "real ?i \<le> real (length s - 1)" using ri assms(4,5) by linarith
  then have ile: "?i \<le> length s - 1" by simp
  have jlt: "?j < length s" using assms(2) by (cases s) auto
  have ij: "?i \<le> ?j" using ile by simp
  have "s ! ?i \<le> s ! ?j" by (rule sorted_nth_mono [OF assms(1) ij jlt])
  then have d0: "0 \<le> s ! ?j - s ! ?i" by simp
  have "(p1 - real ?i) * (s ! ?j - s ! ?i) \<le> (p2 - real ?i) * (s ! ?j - s ! ?i)"
    using assms(4) d0 by (intro mult_right_mono) simp_all
  then show ?thesis using True by (simp add: interp_def Let_def)
next
  case False
  have "\<lfloor>p1\<rfloor> \<le> \<lfloor>p2\<rfloor>" using assms(4) by (rule floor_mono)
  with False have lt: "\<lfloor>p1\<rfloor> < \<lfloor>p2\<rfloor>" by simp
  have p2pos: "0 \<le> p2" using assms(3,4) by simp
  have p1le: "p1 \<le> real (length s - 1)" using assms(4,5) by simp
  let ?i1 = "nat \<lfloor>p1\<rfloor>" and ?i2 = "nat \<lfloor>p2\<rfloor>"
  have i12: "?i1 + 1 \<le> ?i2" using lt assms(3) by linarith
  have ri2: "real ?i2 = of_int \<lfloor>p2\<rfloor>" using p2pos by simp
  have "real ?i2 \<le> real (length s - 1)" using ri2 assms(5) by linarith
  then have i2le: "?i2 \<le> length s - 1" by simp
  have i2lt: "?i2 < length s" using i2le assms(2) by (cases s) auto
  have "min (?i1 + 1) (length s - 1) \<le> ?i2" using i12 by simp
  then have mid: "s ! min (?i1 + 1) (length s - 1) \<le> s ! ?i2"
    by (rule sorted_nth_mono [OF assms(1) _ i2lt])
  from interp_bounds(2) [OF assms(1,3) p1le assms(2)] mid
    interp_bounds(1) [OF assms(1) p2pos assms(5) assms(2)]
  show ?thesis by linarith
qed

lemma percentile_mono:
  assumes "a \<noteq> []" and "0 \<le> q1" and "q1 \<le> q2" and "q2 \<le> 100"
  shows "percentile a q1 \<le> percentile a q2"
proof -
  let ?n = "real (length a - 1)"
  have n0: "0 \<le> ?n" by simp
  have a: "sorted (sort a)" by simp
  have b: "sort a \<noteq> []" using assms(1) by (metis length_sort length_0_conv)
  have c: "0 \<le> ?n * (q1 / 100)" using assms(2) by simp
  have d: "?n * (q1 / 100) \<le> ?n * (q2 / 100)" using assms(3) n0 by (intro mult_left_mono) simp_all
  have "?n * (q2 / 100) \<le> ?n * 1" using assms(4) n0 by (intro mult_left_mono) simp_all
  then have e: "?n * (q2 / 100) \<le> real (length (sort a) - 1)" by simp
  from interp_mono [OF a b c d e] show ?thesis by (simp add: percentile_interp)
qed

lemma percentile_lo_hi: "a \<noteq> [] \<Longrightarrow> percentile a (5 / 2) \<le> percentile a (195 / 2)"
  by (rule percentile_mono) simp_all

section \<open>Claims about the angle parameterisation and the target distribution\<close>

lemma sin_sq_arcsin_sqrt:
  assumes "0 \<le> p" and "p \<le> 1"
  shows "(sin ((2 * arcsin (sqrt p)) / 2))\<^sup>2 = p"
proof -
  have "sqrt p \<le> 1" and "0 \<le> sqrt p" using assms by simp_all
  then have "sin (arcsin (sqrt p)) = sqrt p" by (intro sin_arcsin) linarith+
  then show ?thesis using assms by simp
qed

text \<open>
  C2. For \<open>L \<ge> 1\<close> and a scale \<open>s\<close> with \<open>0 \<le> s/L \<le> 1\<close>, \<open>get_thetas_for_exponential L s\<close>
  returns a list of length \<open>L\<close> whose every entry is \<open>theta = 2 * arcsin (sqrt (s/L))\<close>, and
  \<open>sin\<^sup>2 (theta/2)\<close> is \<open>s/L\<close> again (exactly, over the reals).
\<close>

theorem get_thetas_for_exponential_roundtrip:
  assumes "1 \<le> L" and "0 \<le> s / real_of_int L" and "s / real_of_int L \<le> 1"
  shows "\<exists>thetas. get_thetas_for_exponential L s = Inr thetas \<and> int (length thetas) = L \<and>
     (\<forall>theta \<in> set thetas. theta = 2 * arcsin (sqrt (s / real_of_int L)) \<and>
        (sin (theta / 2))\<^sup>2 = s / real_of_int L)"
  using assms sin_sq_arcsin_sqrt [of "s / real_of_int L"]
  by (auto simp: get_thetas_for_exponential_def Let_def)

theorem get_thetas_for_exponential_roundtrip_witness:
  "(1::int) \<le> 4 \<and> (0::real) \<le> 1 / real_of_int 4 \<and> (1::real) / real_of_int 4 \<le> 1 \<and>
   (\<exists>thetas. get_thetas_for_exponential 4 1 = Inr thetas \<and> int (length thetas) = 4 \<and>
     (\<forall>theta \<in> set thetas. theta = 2 * arcsin (sqrt (1 / real_of_int 4)) \<and>
        (sin (theta / 2))\<^sup>2 = 1 / real_of_int 4))"
proof -
  have a: "(1::int) \<le> 4" by simp
  have b: "(0::real) \<le> 1 / real_of_int 4" by simp
  have c: "(1::real) / real_of_int 4 \<le> 1" by simp
  from get_thetas_for_exponential_roundtrip [OF a b c] a b c show ?thesis by blast
qed

text \<open>
  C7. When \<open>s/L\<close> lies outside \<open>[0,1]\<close> (which needs \<open>L \<noteq> 0\<close>: for \<open>L = 0\<close> the quotient does
  not exist and the division itself fails), \<open>get_thetas_for_exponential L s\<close> and
  \<open>get_target_distribution ''exponential'' L s\<close> both end in the ValueError that carries
  the offending scale and \<open>L\<close>, and no angle and no probability is returned. For every
  label other than \<open>''normal''\<close> and \<open>''exponential''\<close>, \<open>get_target_distribution\<close> ends in
  the ValueError that carries the label.
\<close>

theorem invalid_parameter_ValueError:
  "(L \<noteq> 0 \<and> (s / real_of_int L < 0 \<or> 1 < s / real_of_int L) \<longrightarrow>
      get_thetas_for_exponential L s = Inl (ValueError (ScaleNotValid s L)) \<and>
      get_target_distribution ''exponential'' L (Some s) = Inl (ValueError (ScaleNotValid s L))) \<and>
   (kind \<noteq> ''normal'' \<and> kind \<noteq> ''exponential'' \<longrightarrow>
      get_target_distribution kind L' scale_arg = Inl (ValueError (UnknownDistributionType kind)))"
  by (auto simp: get_thetas_for_exponential_def get_target_distribution_def Let_def)

theorem invalid_parameter_ValueError_witness:
  "(4::int) \<noteq> 0 \<and> 1 < (5::real) / real_of_int 4 \<and>
   get_thetas_for_exponential 4 5 = Inl (ValueError (ScaleNotValid 5 4)) \<and>
   get_target_distribution ''exponential'' 4 (Some 5) = Inl (ValueError (ScaleNotValid 5 4)) \<and>
   ''uniform'' \<noteq> ''normal'' \<and> ''uniform'' \<noteq> ''exponential'' \<and>
   get_target_distribution ''uniform'' 4 None
     = Inl (ValueError (UnknownDistributionType ''uniform''))"
  using invalid_parameter_ValueError [of 4 5 "''uniform''" 4 None] by simp

text \<open>
  C8. A theta list whose length differs from \<open>L\<close> makes \<open>create_qgb_circuit L (Some thetas)\<close>
  fail: with the ValueError of the length check for \<open>L \<ge> 0\<close>, and for a negative \<open>L\<close>
  already in the circuit's constructor. Without thetas (\<open>None\<close>) and for \<open>L \<ge> 1\<close> the
  circuit consists of one Hadamard gate on each of the \<open>L\<close> qubits, followed by the
  measurement of each qubit.
\<close>

theorem create_qgb_circuit_shape:
  "(int (length thetas) \<noteq> L \<longrightarrow>
      (\<exists>e. create_qgb_circuit L (Some thetas) = Inl e) \<and>
      (0 \<le> L \<longrightarrow> create_qgb_circuit L (Some thetas) = Inl (ValueError ThetasLengthMismatch))) \<and>
   (1 \<le> L \<longrightarrow>
      (\<exists>qc. create_qgb_circuit L None = Inr qc \<and> num_qubits qc = nat L \<and>
         data qc = map H [0..<nat L] @ map (\<lambda>i. Measure i i) [0..<nat L]))"
  by (auto simp: create_qgb_circuit_def Let_def)

theorem create_qgb_circuit_shape_witness:
  "int (length [1::real, 2, 3]) \<noteq> 2 \<and> (0::int) \<le> 2 \<and> (1::int) \<le> 2 \<and>
   create_qgb_circuit 2 (Some [1, 2, 3]) = Inl (ValueError ThetasLengthMismatch) \<and>
   (\<exists>qc. create_qgb_circuit 2 None = Inr qc \<and> num_qubits qc = 2 \<and>
      data qc = [H 0, H 1, Measure 0 0, Measure 1 1])"
proof -
  have upt: "[0..<2] = [0, Suc 0]" by (simp add: upt_rec)
  from create_qgb_circuit_shape [of "[1, 2, 3]" 2] show ?thesis by (simp add: upt)
qed

section \<open>Properties of the weighted estimator over the reals\<close>

lemma foldl_add_sum_list:
  fixes f :: "'a \<Rightarrow> real"
  shows "foldl (\<lambda>s x. s + f x) a xs = a + sum_list (map f xs)"
  by (induction xs arbitrary: a) simp_all

lemma weighted_estimator_sum_list:
  "weighted_estimator_from_probs probs m = (\<Sum>(j, pj)\<leftarrow>probs. pj * bin_weight m j)"
proof -
  have "(\<lambda>s (j, pj). (let phase = real_of_int j / (2 powi m) in s + pj * (sin (pi * phase))\<^sup>2))
      = (\<lambda>s x. s + (case x of (j, pj) \<Rightarrow> pj * bin_weight m j))"
    by (simp add: fun_eq_iff bin_weight_def split: prod.splits)
  then show ?thesis
    by (simp add: weighted_estimator_from_probs_def foldl_add_sum_list)
qed

lemma sum_list_items_by_key:
  fixes f :: "int \<Rightarrow> real \<Rightarrow> real"
  assumes "distinct (map fst xs)"
  shows "(\<Sum>(j, pj)\<leftarrow>xs. f j pj) = (\<Sum>j\<in>set (map fst xs). f j (dict_get xs j 0))"
  using assms
proof (induction xs)
  case Nil
  then show ?case by simp
next
  case (Cons a xs)
  obtain k v where a: "a = (k, v)" by (cases a)
  from Cons.prems a have notin: "k \<notin> fst ` set xs" and dist: "distinct (map fst xs)" by auto
  have same: "\<And>j. j \<in> fst ` set xs \<Longrightarrow> dict_get ((k, v) # xs) j 0 = dict_get xs j 0"
    using notin by (auto simp: dict_get_def)
  have "(\<Sum>j\<in>set (map fst (a # xs)). f j (dict_get (a # xs) j 0))
      = f k (dict_get ((k, v) # xs) k 0) + (\<Sum>j\<in>fst ` set xs. f j (dict_get ((k, v) # xs) j 0))"
    using notin a by simp
  also have "\<dots> = f k v + (\<Sum>j\<in>fst ` set xs. f j (dict_get xs j 0))"
    using same by (simp add: dict_get_def)
  finally show ?case using Cons.IH [OF dist] a by simp
qed

lemma bin_weight_quarter: "bin_weight 3 2 = 1 / 2"
proof -
  have "pi * (real_of_int 2 / (2 powi 3)) = pi / 4" by simp
  then show ?thesis by (simp add: bin_weight_def sin_45 power2_eq_square)
qed

lemma concentrated_sum:
  fixes probs :: dist
  assumes "distinct (map fst probs)" and "(k, 1) \<in> set probs"
    and "list_all (\<lambda>(j, pj). j = k \<or> pj = 0) probs"
  shows "(\<Sum>(j, pj)\<leftarrow>probs. pj * w j) = w k"
  using assms
proof (induction probs)
  case Nil
  then show ?case by simp
next
  case (Cons a probs)
  obtain j pj where a: "a = (j, pj)" by (cases a)
  show ?case
  proof (cases "(k, 1) \<in> set probs")
    case True
    with Cons.prems a have "j \<noteq> k" by (auto simp: image_iff)
    with Cons.prems a have "pj = 0" by simp
    with Cons.IH True Cons.prems a show ?thesis by simp
  next
    case False
    with Cons.prems a have jk: "j = k" "pj = 1" by auto
    with Cons.prems a have "k \<notin> fst ` set probs" by auto
    with Cons.prems(3) have "(\<Sum>(j, pj)\<leftarrow>probs. pj * w j) = 0"
    proof (induction probs)
      case Nil
      then show ?case by simp
    next
      case (Cons b probs)
      then show ?case by (cases b) auto
    qed
    with jk a show ?thesis by simp
  qed
qed

section \<open>The estimator in binary64 arithmetic at phase 1/4\<close>

lemma round_half_even_near:
  assumes "of_int n - 1 / 2 < y" and "y < of_int n + 1 / 2"
  shows "round_half_even y = n"
proof -
  have "\<lfloor>y\<rfloor> = n \<or> \<lfloor>y\<rfloor> = n - 1" using assms by linarith
  then show ?thesis
  proof
    assume f: "\<lfloor>y\<rfloor> = n"
    then have "y - of_int \<lfloor>y\<rfloor> < 1 / 2" using assms by simp
    then show ?thesis using f by (simp add: round_half_even_def Let_def)
  next
    assume f: "\<lfloor>y\<rfloor> = n - 1"
    then have "1 / 2 < y - of_int \<lfloor>y\<rfloor>" using assms by simp
    then show ?thesis using f by (simp add: round_half_even_def Let_def)
  qed
qed

lemma round_half_even_int: "round_half_even (of_int n) = n"
  by (rule round_half_even_near) simp_all

lemma floor_log2_binade:
  assumes "2 powi k \<le> x" and "x < 2 powi (k + 1)"
  shows "\<lfloor>log 2 \<bar>x\<bar>\<rfloor> = k"
proof -
  have pos: "0 < x" using assms(1) by (smt (verit) zero_less_power_int)
  have a: "(2::real) powr real_of_int k = 2 powi k"
    and b: "(2::real) powr real_of_int (k + 1) = 2 powi (k + 1)"
    by (rule powr_real_of_int'; simp)+
  have "2 powr real_of_int k \<le> x \<and> x < 2 powr real_of_int (k + 1)"
    using assms by (simp only: a b)
  then have "\<lfloor>log 2 x\<rfloor> = k" using pos by (simp add: floor_log_eq_powr_iff)
  then show ?thesis using pos by simp
qed

lemma f64_round_near:
  assumes "2 powi k \<le> x" and "x < 2 powi (k + 1)" and "- 1022 \<le> k"
    and "of_int n - 1 / 2 < x / 2 powi (k - 52)" and "x / 2 powi (k - 52) < of_int n + 1 / 2"
  shows "f64_round x = of_int n * 2 powi (k - 52)"
proof -
  have pos: "0 < x" using assms(1) by (smt (verit) zero_less_power_int)
  have e: "max \<lfloor>log 2 \<bar>x\<bar>\<rfloor> (- 1022) - 52 = k - 52"
    using floor_log2_binade [OF assms(1,2)] assms(3) by simp
  have "round_half_even (x / 2 powi (k - 52)) = n"
    by (rule round_half_even_near [OF assms(4,5)])
  then show ?thesis using pos e by (simp add: f64_round_def Let_def)
qed

lemma f64_round_exact:
  assumes "2 powi k \<le> x" and "x < 2 powi (k + 1)" and "- 1022 \<le> k"
    and "x = of_int n * 2 powi (k - 52)"
  shows "f64_round x = x"
proof -
  have "x / 2 powi (k - 52) = of_int n" using assms(4) by simp
  then have "f64_round x = of_int n * 2 powi (k - 52)"
    using assms(1-3) by (intro f64_round_near) simp_all
  then show ?thesis using assms(4) by simp
qed

lemma f64_round_zero: "f64_round 0 = 0"
  by (simp add: f64_round_def)

lemma phase_quarter: "f64_round (real_of_int 2 / (2 powi 3)) = 1 / 4"
proof -
  have "f64_round (1 / 4) = 1 / 4"
    by (rule f64_round_exact [where k = "- 2" and n = "2 ^ 52"]) simp_all
  then show ?thesis by simp
qed

lemma angle_quarter: "f64_mul math_pi (1 / 4) = 884279719003555 / 2 ^ 50"
proof -
  have "f64_round (884279719003555 / 2 ^ 50) = 884279719003555 / 2 ^ 50"
    by (rule f64_round_exact [where k = "- 1" and n = "7074237752028440"]) simp_all
  then show ?thesis by (simp add: f64_mul_def math_pi_def)
qed



lemma sin_taylor_19:
  fixes x :: real
  shows "(\<Sum>m<19. sin_coeff m * x ^ m)
    = x - x ^ 3 / 6 + x ^ 5 / 120 - x ^ 7 / 5040 + x ^ 9 / 362880 - x ^ 11 / 39916800
      + x ^ 13 / 6227020800 - x ^ 15 / 1307674368000 + x ^ 17 / 355687428096000"
  by (simp add: lessThan_nat_numeral sin_coeff_def fact_numeral)

lemma sin_taylor_19_error:
  fixes x :: real
  assumes "0 \<le> x" and "x \<le> 1"
  shows "\<bar>sin x - (\<Sum>m<19. sin_coeff m * x ^ m)\<bar> \<le> 1 / 121645100408832000"
proof -
  have "\<bar>x\<bar> ^ 19 \<le> 1" using assms by (simp add: power_le_one)
  then have "inverse (fact 19) * \<bar>x\<bar> ^ 19 \<le> inverse (fact 19) * (1::real)"
    by (intro mult_left_mono) simp_all
  also have "\<dots> = 1 / 121645100408832000"
    by (simp add: fact_numeral inverse_eq_divide)
  finally show ?thesis using Maclaurin_sin_bound [of x 19] by linarith
qed

lemma taylor_at_angle_lower:
  fixes x P :: real
  assumes "x = 884279719003555 / 2 ^ 50"
    and "P = x - x ^ 3 / 6 + x ^ 5 / 120 - x ^ 7 / 5040 + x ^ 9 / 362880
      - x ^ 11 / 39916800 + x ^ 13 / 6227020800 - x ^ 15 / 1307674368000
      + x ^ 17 / 355687428096000"
  shows "6369051672525772 - 1 / 2 < (P - 1 / 121645100408832000) * 2 ^ 53"
  unfolding assms by (simp add: power_divide)

lemma taylor_at_angle_upper:
  fixes x P :: real
  assumes "x = 884279719003555 / 2 ^ 50"
    and "P = x - x ^ 3 / 6 + x ^ 5 / 120 - x ^ 7 / 5040 + x ^ 9 / 362880
      - x ^ 11 / 39916800 + x ^ 13 / 6227020800 - x ^ 15 / 1307674368000
      + x ^ 17 / 355687428096000"
  shows "(P + 1 / 121645100408832000) * 2 ^ 53 < 6369051672525772 + 1 / 2"
  unfolding assms by (simp add: power_divide)

lemma sin_angle_bounds:
  "6369051672525772 - 1 / 2 < sin (884279719003555 / 2 ^ 50 :: real) * 2 ^ 53"
  "sin (884279719003555 / 2 ^ 50 :: real) * 2 ^ 53 < 6369051672525772 + 1 / 2"
proof -
  define x :: real where "x = 884279719003555 / 2 ^ 50"
  define P :: real where "P = x - x ^ 3 / 6 + x ^ 5 / 120 - x ^ 7 / 5040 + x ^ 9 / 362880
      - x ^ 11 / 39916800 + x ^ 13 / 6227020800 - x ^ 15 / 1307674368000
      + x ^ 17 / 355687428096000"
  have x01: "0 \<le> x" "x \<le> 1" by (simp_all add: x_def)
  have "\<bar>sin x - P\<bar> \<le> 1 / 121645100408832000"
    using sin_taylor_19_error [OF x01] by (simp only: sin_taylor_19 P_def)
  then have lo: "P - 1 / 121645100408832000 \<le> sin x"
    and hi: "sin x \<le> P + 1 / 121645100408832000" by linarith+
  from lo have "(P - 1 / 121645100408832000) * 2 ^ 53 \<le> sin x * 2 ^ 53" by simp
  with taylor_at_angle_lower [OF x_def P_def]
  show "6369051672525772 - 1 / 2 < sin (884279719003555 / 2 ^ 50 :: real) * 2 ^ 53"
    unfolding x_def by linarith
  from hi have "sin x * 2 ^ 53 \<le> (P + 1 / 121645100408832000) * 2 ^ 53" by simp
  with taylor_at_angle_upper [OF x_def P_def]
  show "sin (884279719003555 / 2 ^ 50 :: real) * 2 ^ 53 < 6369051672525772 + 1 / 2"
    unfolding x_def by linarith
qed

lemma math_sin_angle: "math_sin (884279719003555 / 2 ^ 50) = 6369051672525772 / 2 ^ 53"
proof -
  let ?s = "sin (884279719003555 / 2 ^ 50) :: real"
  have b1: "6369051672525772 - 1 / 2 < ?s * 9007199254740992"
    using sin_angle_bounds(1) by simp
  have b2: "?s * 9007199254740992 < 6369051672525772 + 1 / 2"
    using sin_angle_bounds(2) by simp
  have lo: "1 / 2 \<le> ?s" using b1 by linarith
  have hi: "?s < 1" using b2 by linarith
  have "f64_round ?s = of_int 6369051672525772 * 2 powi (- 1 - 52)"
  proof (rule f64_round_near)
    show "2 powi (- 1) \<le> ?s" using lo by simp
    show "?s < 2 powi (- 1 + 1)" using hi by simp
    show "(- 1022::int) \<le> - 1" by simp
    show "of_int 6369051672525772 - 1 / 2 < ?s / 2 powi (- 1 - 52)"
      using b1 by simp
    show "?s / 2 powi (- 1 - 52) < of_int 6369051672525772 + 1 / 2"
      using b2 by simp
  qed
  then show ?thesis by (simp add: math_sin_def)
qed

lemma f64_square_sin: "f64_square (6369051672525772 / 2 ^ 53) = 1 / 2 - 1 / 2 ^ 53"
proof -
  let ?d = "6369051672525772 / 2 ^ 53 :: real"
  have "f64_round (?d * ?d) = of_int 9007199254740990 * 2 powi (- 2 - 52)"
    by (rule f64_round_near) (simp_all add: power_int_minus field_simps)
  then show ?thesis by (simp add: f64_square_def power_int_minus field_simps)
qed

lemma f64_round_weight: "f64_round (1 / 2 - 1 / 2 ^ 53) = 1 / 2 - 1 / 2 ^ 53"
  by (rule f64_round_exact [where k = "- 2" and n = "9007199254740990"])
    (simp_all add: power_int_minus field_simps)


lemma weighted_estimator_f64_foldl:
  "weighted_estimator_from_probs_f64 probs m
     = foldl (\<lambda>s (j, pj). f64_add s (f64_mul pj (f64_bin_weight m j))) 0 probs"
  by (simp add: weighted_estimator_from_probs_f64_def f64_bin_weight_def Let_def)

lemma f64_bin_weight_quarter: "f64_bin_weight 3 2 = 1 / 2 - 1 / 2 ^ 53"
proof -
  have "f64_mul math_pi (f64_round (real_of_int 2 / (2 powi 3))) = 884279719003555 / 2 ^ 50"
    by (simp only: phase_quarter angle_quarter)
  then show ?thesis
    by (simp only: f64_bin_weight_def math_sin_angle f64_square_sin)
qed

lemma f64_mul_zero: "f64_mul 0 b = 0"
  by (simp add: f64_mul_def f64_round_zero)

lemma f64_mul_one_weight: "f64_mul 1 (1 / 2 - 1 / 2 ^ 53) = 1 / 2 - 1 / 2 ^ 53"
  using f64_round_weight by (simp add: f64_mul_def)

lemma f64_add_zero_zero: "f64_add 0 0 = 0"
  by (simp add: f64_add_def f64_round_zero)

lemma f64_add_zero_weight: "f64_add 0 (1 / 2 - 1 / 2 ^ 53) = 1 / 2 - 1 / 2 ^ 53"
  using f64_round_weight by (simp add: f64_add_def)

lemma f64_add_weight_zero: "f64_add (1 / 2 - 1 / 2 ^ 53) 0 = 1 / 2 - 1 / 2 ^ 53"
  using f64_round_weight by (simp add: f64_add_def)

lemma weighted_estimator_f64_bin_2:
  "weighted_estimator_from_probs_f64
     [(0, 0), (1, 0), (2, 1), (3, 0), (4, 0), (5, 0), (6, 0), (7, 0)] 3 = 1 / 2 - 1 / 2 ^ 53"
  by (simp only: weighted_estimator_f64_foldl foldl.simps prod.case f64_mul_zero
      f64_bin_weight_quarter f64_mul_one_weight f64_add_zero_zero f64_add_zero_weight
      f64_add_weight_zero)

lemma f64_foldl_zero_entries:
  assumes "list_all (\<lambda>(j, pj). pj = 0) xs" and "s = 0 \<or> s = 1 / 2 - 1 / 2 ^ 53"
  shows "foldl (\<lambda>s (j, pj). f64_add s (f64_mul pj (f64_bin_weight m j))) s xs = s"
  using assms
proof (induction xs)
  case Nil
  then show ?case by simp
next
  case (Cons a xs)
  obtain j pj where a: "a = (j, pj)" by (cases a)
  with Cons.prems have pj: "pj = 0" and rest: "list_all (\<lambda>(j, pj). pj = 0) xs" by simp_all
  have "f64_add s 0 = s"
  proof (cases "s = 0")
    case True
    then show ?thesis by (simp only: f64_add_zero_zero)
  next
    case False
    with Cons.prems(2) have "s = 1 / 2 - 1 / 2 ^ 53" by blast
    then show ?thesis by (simp only: f64_add_weight_zero)
  qed
  then have "f64_add s (f64_mul pj (f64_bin_weight m j)) = s"
    using pj by (simp only: f64_mul_zero)
  with Cons.IH [OF rest Cons.prems(2)] a show ?case by simp
qed

lemma f64_foldl_concentrated:
  assumes "distinct (map fst probs)" and "(2, 1) \<in> set probs"
    and "list_all (\<lambda>(j, pj). j = 2 \<or> pj = 0) probs"
  shows "foldl (\<lambda>s (j, pj). f64_add s (f64_mul pj (f64_bin_weight 3 j))) 0 probs
           = 1 / 2 - 1 / 2 ^ 53"
  using assms
proof (induction probs)
  case Nil
  then show ?case by simp
next
  case (Cons a probs)
  obtain j pj where a: "a = (j, pj)" by (cases a)
  show ?case
  proof (cases "(2, 1) \<in> set probs")
    case True
    with Cons.prems a have "j \<noteq> 2" by (auto simp: image_iff)
    with Cons.prems a have "pj = 0" by simp
    with Cons.IH True Cons.prems a show ?thesis
      by (simp add: f64_mul_zero f64_add_zero_zero)
  next
    case False
    with Cons.prems a have jk: "j = 2" "pj = 1" by auto
    with Cons.prems a have "2 \<notin> fst ` set probs" by auto
    then have no2: "\<And>j' p'. (j', p') \<in> set probs \<Longrightarrow> j' \<noteq> 2" by force
    from Cons.prems(3) have tail: "list_all (\<lambda>(j, pj). j = 2 \<or> pj = 0) probs" by simp
    have zeros: "list_all (\<lambda>(j, pj). pj = 0) probs"
      unfolding list_all_iff
    proof
      fix x
      assume x: "x \<in> set probs"
      obtain j' p' where xp: "x = (j', p')" by (cases x)
      from tail x xp have "j' = 2 \<or> p' = 0" by (auto simp: list_all_iff)
      with no2 x xp have "p' = 0" by blast
      with xp show "case x of (j, pj) \<Rightarrow> pj = 0" by simp
    qed
    have step: "f64_add 0 (f64_mul 1 (f64_bin_weight 3 2)) = 1 / 2 - 1 / 2 ^ 53"
      by (simp only: f64_bin_weight_quarter f64_mul_one_weight f64_add_zero_weight)
    have tail_fold:
      "foldl (\<lambda>s (j, pj). f64_add s (f64_mul pj (f64_bin_weight 3 j))) (1 / 2 - 1 / 2 ^ 53) probs
         = 1 / 2 - 1 / 2 ^ 53"
      by (rule f64_foldl_zero_entries [OF zeros]) (rule disjI2, rule refl)
    have "foldl (\<lambda>s (j, pj). f64_add s (f64_mul pj (f64_bin_weight 3 j))) 0 (a # probs)
         = foldl (\<lambda>s (j, pj). f64_add s (f64_mul pj (f64_bin_weight 3 j)))
             (f64_add 0 (f64_mul 1 (f64_bin_weight 3 2))) probs"
      unfolding a jk by (simp only: foldl.simps prod.case)
    then show ?thesis by (simp only: step tail_fold)
  qed
qed

lemma weighted_estimator_f64_concentrated:
  assumes "distinct (map fst probs)" and "(2, 1) \<in> set probs"
    and "list_all (\<lambda>(j, pj). j = 2 \<or> pj = 0) probs"
  shows "weighted_estimator_from_probs_f64 probs 3 = 1 / 2 - 1 / 2 ^ 53"
  using f64_foldl_concentrated [OF assms] by (simp only: weighted_estimator_f64_foldl)

section \<open>Claims about the weighted estimator\<close>

text \<open>
  C4, as the code has it. Over the reals, \<open>weighted_estimator_from_probs probs m\<close> is the
  sum over the entries \<open>(j, pj)\<close> of \<open>probs\<close> of \<open>pj * sin\<^sup>2 (pi * j / 2^m)\<close>, which for a
  dictionary (distinct keys) is the sum over its bins \<open>j\<close> of
  \<open>probs[j] * sin\<^sup>2 (pi * j / 2^m)\<close>. For \<open>m = 3\<close> and a vector that is 1 at bin 2 and 0 at
  every other bin, that sum is \<open>sin\<^sup>2 (pi/4) = 1/2\<close>, and the floats reach it within
  tolerance, not exactly: the binary64 estimate is \<open>1/2 - 2^-53\<close>.
\<close>

theorem weighted_estimator_formula:
  "weighted_estimator_from_probs probs m = (\<Sum>(j, pj)\<leftarrow>probs. pj * bin_weight m j) \<and>
   (distinct (map fst probs) \<longrightarrow>
      weighted_estimator_from_probs probs m
        = (\<Sum>j\<in>set (map fst probs). dict_get probs j 0 * bin_weight m j)) \<and>
   (distinct (map fst probs) \<and> (2, 1) \<in> set probs \<and>
      list_all (\<lambda>(j, pj). j = 2 \<or> pj = 0) probs \<longrightarrow>
      weighted_estimator_from_probs probs 3 = 1 / 2 \<and> bin_weight 3 2 = (sin (pi / 4))\<^sup>2 \<and>
      weighted_estimator_from_probs_f64 probs 3 = 1 / 2 - 1 / 2 ^ 53)"
proof -
  have a: "weighted_estimator_from_probs probs m = (\<Sum>(j, pj)\<leftarrow>probs. pj * bin_weight m j)"
    by (rule weighted_estimator_sum_list)
  have b: "distinct (map fst probs) \<Longrightarrow> weighted_estimator_from_probs probs m
        = (\<Sum>j\<in>set (map fst probs). dict_get probs j 0 * bin_weight m j)"
    using sum_list_items_by_key [of probs "\<lambda>j pj. pj * bin_weight m j"]
    by (simp add: weighted_estimator_sum_list)
  have c: "distinct (map fst probs) \<Longrightarrow> (2, 1) \<in> set probs \<Longrightarrow>
      list_all (\<lambda>(j, pj). j = 2 \<or> pj = 0) probs \<Longrightarrow>
      weighted_estimator_from_probs probs 3 = 1 / 2"
    using concentrated_sum [of probs 2 "bin_weight 3"]
    by (simp add: weighted_estimator_sum_list bin_weight_quarter)
  have d: "bin_weight 3 2 = (sin (pi / 4))\<^sup>2" by (simp add: bin_weight_def)
  have e: "distinct (map fst probs) \<Longrightarrow> (2, 1) \<in> set probs \<Longrightarrow>
      list_all (\<lambda>(j, pj). j = 2 \<or> pj = 0) probs \<Longrightarrow>
      weighted_estimator_from_probs_f64 probs 3 = 1 / 2 - 1 / 2 ^ 53"
    by (rule weighted_estimator_f64_concentrated)
  from a b c d e show ?thesis by blast
qed

theorem weighted_estimator_formula_witness:
  "distinct (map fst [(0::int, 0::real), (1, 0), (2, 1), (3, 0), (4, 0), (5, 0), (6, 0), (7, 0)]) \<and>
   (2, 1) \<in> set [(0::int, 0::real), (1, 0), (2, 1), (3, 0), (4, 0), (5, 0), (6, 0), (7, 0)] \<and>
   list_all (\<lambda>(j, pj). j = 2 \<or> pj = 0)
     [(0::int, 0::real), (1, 0), (2, 1), (3, 0), (4, 0), (5, 0), (6, 0), (7, 0)] \<and>
   weighted_estimator_from_probs
     [(0::int, 0::real), (1, 0), (2, 1), (3, 0), (4, 0), (5, 0), (6, 0), (7, 0)] 3 = 1 / 2 \<and>
   weighted_estimator_from_probs_f64
     [(0::int, 0::real), (1, 0), (2, 1), (3, 0), (4, 0), (5, 0), (6, 0), (7, 0)] 3 = 1 / 2 - 1 / 2 ^ 53 \<and>
   weighted_estimator_from_probs
     [(0::int, 0::real), (1, 0), (2, 1), (3, 0), (4, 0), (5, 0), (6, 0), (7, 0)] 3
     = (\<Sum>j\<in>set (map fst [(0::int, 0::real), (1, 0), (2, 1), (3, 0), (4, 0), (5, 0), (6, 0), (7, 0)]).
          dict_get [(0::int, 0::real), (1, 0), (2, 1), (3, 0), (4, 0), (5, 0), (6, 0), (7, 0)] j 0
            * bin_weight 3 j)"
proof -
  let ?p = "[(0::int, 0::real), (1, 0), (2, 1), (3, 0), (4, 0), (5, 0), (6, 0), (7, 0)]"
  have a: "distinct (map fst ?p)" by simp
  have b: "(2, 1) \<in> set ?p" by simp
  have c: "list_all (\<lambda>(j, pj). j = 2 \<or> pj = 0) ?p" by simp
  from weighted_estimator_formula [of ?p 3] a b c show ?thesis by blast
qed

text \<open>
  The claim as stated fails: for \<open>m = 3\<close> and all mass on bin 2 the floats do not give
  \<open>0.5\<close> exactly. The phase is \<open>0.25\<close>, \<^verbatim>\<open>math.pi * 0.25\<close> is below \<open>pi/4\<close>, its sine rounds to
  \<^verbatim>\<open>0.7071067811865475\<close>, below \<open>sqrt (1/2)\<close>, and the square of that rounds to
  \<open>1/2 - 2^-53\<close>, printed \<^verbatim>\<open>0.4999999999999999\<close>; the other seven bins add \<open>0.0\<close>.
\<close>

theorem weighted_estimator_binary64_counterexample:
  "weighted_estimator_from_probs_f64
     [(0, 0), (1, 0), (2, 1), (3, 0), (4, 0), (5, 0), (6, 0), (7, 0)] 3 = 1 / 2 - 1 / 2 ^ 53 \<and>
   weighted_estimator_from_probs_f64
     [(0, 0), (1, 0), (2, 1), (3, 0), (4, 0), (5, 0), (6, 0), (7, 0)] 3 \<noteq> 1 / 2"
  by (simp only: weighted_estimator_f64_bin_2) simp

section \<open>Zero total shots\<close>

lemma bootstrap_distance_zero_shots:
  assumes "total_counts counts = 0" and "0 \<le> layers"
  shows "bootstrap_distance multinomial g counts layers target_dist n_boot = Inl ZeroDivisionError"
proof -
  have "[0..<2 ^ nat layers] = 0 # [1..<2 ^ nat layers]" by (simp add: upt_rec)
  then show ?thesis using assms
    by (simp add: bootstrap_distance_def true_div_def Let_def)
qed

lemma full_counts_probs_zero_shots:
  "total_counts counts = 0 \<Longrightarrow> 0 \<le> num_bits \<Longrightarrow>
     full_counts_probs counts num_bits = Inr (map (\<lambda>j. (int j, 0)) [0..<2 ^ nat num_bits])"
  by (simp add: full_counts_probs_def)

text \<open>
  C6. On the empty counts mapping (total 0) with one layer, \<open>full_counts_probs\<close> and
  \<open>process_results\<close> return their all-zero distributions through their guards, but
  \<open>bootstrap_distance\<close> has no such guard: its first division \<^verbatim>\<open>counts.get(...) / num_shots\<close>
  raises ZeroDivisionError, whatever the generator, the target and \<open>n_boot\<close> are.
\<close>

theorem bootstrap_distance_zero_shots_raises:
  "bootstrap_distance multinomial g [] 1 target_dist n_boot = Inl ZeroDivisionError \<and>
   full_counts_probs [] 1 = Inr [(0, 0), (1, 0)] \<and>
   process_results [] 1 = Inr [(0, 0), (1, 0)]"
proof -
  have a: "total_counts [] = 0" by (simp add: total_counts_def)
  have upto: "[0..1::int] = [0, 1]" by (simp add: upto.simps)
  have "bootstrap_distance multinomial g [] 1 target_dist n_boot = Inl ZeroDivisionError"
    using bootstrap_distance_zero_shots [OF a, of 1] by simp
  moreover have "full_counts_probs [] 1 = Inr [(0, 0), (1, 0)]"
    using full_counts_probs_zero_shots [OF a, of 1] by (simp add: upt_rec)
  moreover have "process_results [] 1 = Inr [(0, 0), (1, 0)]"
    using process_results_zero [OF a, of 1] by (simp add: upto)
  ultimately show ?thesis by blast
qed

section \<open>Claims about the KL divergence\<close>

lemma collect_all_Inr:
  "(\<And>x. x \<in> set xs \<Longrightarrow> f x = Inr (h x)) \<Longrightarrow> collect f xs = Inr (map h xs)"
  by (induction xs) simp_all

lemma zip_map_same: "zip (map f xs) (map h xs) = map (\<lambda>x. (f x, h x)) xs"
  by (induction xs) simp_all

lemma collect_map: "collect f (map u xs) = collect (\<lambda>x. f (u x)) xs"
  by (induction xs) (simp_all split: sum.splits)

lemma kl_term_pos: "0 < a \<Longrightarrow> 0 < b \<Longrightarrow> kl_term a b = Inr (a * ln (a / b))"
  by (simp add: kl_term_def not_le)

lemma kl_term_lower:
  fixes a b :: real
  assumes "0 < a" and "0 < b"
  shows "a - b \<le> a * ln (a / b)"
proof -
  have "ln (b / a) \<le> b / a - 1" using assms by (intro ln_le_minus_one) simp
  moreover have "ln (b / a) = - ln (a / b)" using assms by (simp add: ln_div)
  ultimately have "1 - b / a \<le> ln (a / b)" by linarith
  then have "a * (1 - b / a) \<le> a * ln (a / b)" using assms(1) by (intro mult_left_mono) simp_all
  moreover have "a * (1 - b / a) = a - b" using assms(1) by (simp add: field_simps)
  ultimately show ?thesis by simp
qed

lemma kl_term_lower_strict:
  fixes a b :: real
  assumes "0 < a" and "0 < b" and "a \<noteq> b"
  shows "a - b < a * ln (a / b)"
proof -
  have "ln (b / a) \<noteq> b / a - 1"
    using ln_eq_minus_one [of "b / a"] assms by auto
  moreover have "ln (b / a) \<le> b / a - 1" using assms by (intro ln_le_minus_one) simp
  ultimately have "ln (b / a) < b / a - 1" by simp
  moreover have "ln (b / a) = - ln (a / b)" using assms by (simp add: ln_div)
  ultimately have "1 - b / a < ln (a / b)" by linarith
  then have "a * (1 - b / a) < a * ln (a / b)" using assms(1) by simp
  moreover have "a * (1 - b / a) = a - b" using assms(1) by (simp add: field_simps)
  ultimately show ?thesis by simp
qed

lemma epsilon_pos: "0 < epsilon"
  by (simp add: epsilon_def)

lemma dict_get_nonneg: "nonneg_dist p \<Longrightarrow> 0 \<le> dict_get p k 0"
proof (cases "map_of p k")
  case None
  then show ?thesis by (simp add: dict_get_def)
next
  case (Some v)
  assume "nonneg_dist p"
  moreover from Some have "(k, v) \<in> set p" by (rule map_of_SomeD)
  ultimately have "0 \<le> v" by (auto simp: nonneg_dist_def list_all_iff)
  with Some show ?thesis by (simp add: dict_get_def)
qed

lemma all_keys_of_props:
  "distinct (all_keys_of p q)" "set (all_keys_of p q) = fst ` set p \<union> fst ` set q"
  by (simp_all add: all_keys_of_def)

lemma sum_over_keys:
  fixes p :: dist
  assumes "distinct (map fst p)" and "distinct ks" and "fst ` set p \<subseteq> set ks"
  shows "(\<Sum>k\<leftarrow>ks. dict_get p k 0) = sum_list (map snd p)"
proof -
  have "(\<Sum>k\<leftarrow>ks. dict_get p k 0) = (\<Sum>k\<in>set ks. dict_get p k 0)"
    using assms(2) by (simp add: sum_list_distinct_conv_sum_set)
  also have "\<dots> = (\<Sum>k\<in>fst ` set p. dict_get p k 0)"
  proof (rule sum.mono_neutral_right)
    show "finite (set ks)" by simp
    show "fst ` set p \<subseteq> set ks" by (rule assms(3))
    show "\<forall>i\<in>set ks - fst ` set p. dict_get p i 0 = 0"
    proof
      fix i
      assume "i \<in> set ks - fst ` set p"
      then have "map_of p i = None" by (simp add: map_of_eq_None_iff)
      then show "dict_get p i 0 = 0" by (simp add: dict_get_def)
    qed
  qed
  also have "\<dots> = (\<Sum>(j, pj)\<leftarrow>p. pj)"
    using sum_list_items_by_key [OF assms(1), of "\<lambda>j pj. pj"] by simp
  also have "\<dots> = sum_list (map snd p)"
    by (simp add: case_prod_unfold)
  finally show ?thesis .
qed

lemma kl_divergence_value:
  assumes "nonneg_dist p" and "nonneg_dist q"
  shows "kl_divergence p q = Inr (\<Sum>k\<leftarrow>all_keys_of p q.
           (dict_get p k 0 + epsilon) * ln ((dict_get p k 0 + epsilon) / (dict_get q k 0 + epsilon)))"
proof -
  have pos: "\<And>k. 0 < dict_get p k 0 + epsilon" "\<And>k. 0 < dict_get q k 0 + epsilon"
    using dict_get_nonneg [OF assms(1)] dict_get_nonneg [OF assms(2)] epsilon_pos
    by (simp_all add: add_nonneg_pos)
  have "collect (\<lambda>k. kl_term (dict_get p k 0 + epsilon) (dict_get q k 0 + epsilon)) (all_keys_of p q)
      = Inr (map (\<lambda>k. (dict_get p k 0 + epsilon)
                 * ln ((dict_get p k 0 + epsilon) / (dict_get q k 0 + epsilon))) (all_keys_of p q))"
    by (rule collect_all_Inr) (simp add: kl_term_pos pos)
  then show ?thesis
    by (simp add: kl_divergence_def Let_def zip_map_same collect_map all_keys_of_def)
qed

lemma sum_list_mono_map:
  fixes f h :: "'a \<Rightarrow> real"
  shows "(\<And>x. x \<in> set xs \<Longrightarrow> f x \<le> h x) \<Longrightarrow> sum_list (map f xs) \<le> sum_list (map h xs)"
  by (induction xs) (simp_all add: add_mono)

lemma kl_divergence_nonneg:
  assumes "nonneg_dist p" and "nonneg_dist q"
    and "distinct (map fst p)" and "distinct (map fst q)"
    and "sum_list (map snd p) = sum_list (map snd q)"
  shows "\<exists>d. kl_divergence p q = Inr d \<and> 0 \<le> d"
proof -
  let ?ks = "all_keys_of p q"
  let ?a = "\<lambda>k. dict_get p k 0 + epsilon" and ?b = "\<lambda>k. dict_get q k 0 + epsilon"
  have pos: "\<And>k. 0 < ?a k" "\<And>k. 0 < ?b k"
    using dict_get_nonneg [OF assms(1)] dict_get_nonneg [OF assms(2)] epsilon_pos
    by (simp_all add: add_nonneg_pos)
  have sp: "(\<Sum>k\<leftarrow>?ks. dict_get p k 0) = sum_list (map snd p)"
    by (rule sum_over_keys [OF assms(3)]) (simp_all add: all_keys_of_props)
  have sq: "(\<Sum>k\<leftarrow>?ks. dict_get q k 0) = sum_list (map snd q)"
    by (rule sum_over_keys [OF assms(4)]) (simp_all add: all_keys_of_props)
  have "(\<Sum>k\<leftarrow>?ks. ?a k - ?b k) = (\<Sum>k\<leftarrow>?ks. dict_get p k 0) - (\<Sum>k\<leftarrow>?ks. dict_get q k 0)"
    by (simp add: sum_list_subtractf)
  with sp sq assms(5) have zero: "(\<Sum>k\<leftarrow>?ks. ?a k - ?b k) = 0" by simp
  have "(\<Sum>k\<leftarrow>?ks. ?a k - ?b k) \<le> (\<Sum>k\<leftarrow>?ks. ?a k * ln (?a k / ?b k))"
    by (rule sum_list_mono_map) (rule kl_term_lower [OF pos])
  with zero have "0 \<le> (\<Sum>k\<leftarrow>?ks. ?a k * ln (?a k / ?b k))" by simp
  with kl_divergence_value [OF assms(1,2)] show ?thesis by simp
qed

lemma kl_divergence_equal:
  assumes "nonneg_dist p" and "nonneg_dist q" and "map_of p = map_of q"
  shows "kl_divergence p q = Inr 0"
proof -
  have same: "\<And>k. dict_get q k 0 = dict_get p k 0"
    using assms(3) by (simp add: dict_get_def)
  have pos: "\<And>k. 0 < dict_get p k 0 + epsilon"
    using dict_get_nonneg [OF assms(1)] epsilon_pos by (simp add: add_nonneg_pos)
  have "\<And>k. (dict_get p k 0 + epsilon) / (dict_get p k 0 + epsilon) = 1"
    using pos by (simp add: less_imp_neq [THEN not_sym])
  then show ?thesis
    using kl_divergence_value [OF assms(1,2)] by (simp add: same)
qed

text \<open>
  C3. For two probability mappings \<open>P\<close> and \<open>Q\<close> (dictionaries with non-negative values that
  sum to 1), \<open>kl_divergence P Q\<close>, computed over the sorted union of the keys with missing
  entries read as 0 and epsilon added to every entry, is a real number and is
  non-negative; and it is 0 when \<open>P\<close> and \<open>Q\<close> are equal as dictionaries (same keys, same
  values). Over the reals no tolerance is needed.
\<close>

theorem kl_divergence_nonnegative:
  assumes "nonneg_dist P" and "nonneg_dist Q"
    and "distinct (map fst P)" and "distinct (map fst Q)"
    and "sum_list (map snd P) = 1" and "sum_list (map snd Q) = 1"
  shows "(\<exists>d. kl_divergence P Q = Inr d \<and> 0 \<le> d) \<and>
         (map_of P = map_of Q \<longrightarrow> kl_divergence P Q = Inr 0)"
  using kl_divergence_nonneg [OF assms(1-4)] kl_divergence_equal [OF assms(1,2)] assms(5,6)
  by simp

theorem kl_divergence_nonnegative_witness:
  "nonneg_dist [(0, 1 / 2), (1, 1 / 2)] \<and> nonneg_dist [(1, 3 / 4), (2, 1 / 4)] \<and>
   distinct (map fst [(0::int, 1 / 2 :: real), (1, 1 / 2)]) \<and>
   distinct (map fst [(1::int, 3 / 4 :: real), (2, 1 / 4)]) \<and>
   sum_list (map snd [(0::int, 1 / 2 :: real), (1, 1 / 2)]) = 1 \<and>
   sum_list (map snd [(1::int, 3 / 4 :: real), (2, 1 / 4)]) = 1 \<and>
   (\<exists>d. kl_divergence [(0, 1 / 2), (1, 1 / 2)] [(1, 3 / 4), (2, 1 / 4)] = Inr d \<and> 0 \<le> d) \<and>
   map_of [(0::int, 1 / 2 :: real), (1, 1 / 2)] = map_of [(0, 1 / 2), (1, 1 / 2)] \<and>
   kl_divergence [(0, 1 / 2), (1, 1 / 2)] [(0, 1 / 2), (1, 1 / 2)] = Inr 0"
proof -
  let ?P = "[(0, 1 / 2), (1, 1 / 2)] :: dist" and ?Q = "[(1, 3 / 4), (2, 1 / 4)] :: dist"
  have a: "nonneg_dist ?P" and b: "nonneg_dist ?Q" by (simp_all add: nonneg_dist_def)
  have c: "distinct (map fst ?P)" and d: "distinct (map fst ?Q)" by simp_all
  have e: "sum_list (map snd ?P) = 1" and f: "sum_list (map snd ?Q) = 1" by simp_all
  from kl_divergence_nonnegative [OF a b c d e f]
  have g: "\<exists>d. kl_divergence ?P ?Q = Inr d \<and> 0 \<le> d" by blast
  from kl_divergence_nonnegative [OF a a c c e e]
  have h: "kl_divergence ?P ?P = Inr 0" by simp
  from a b c d e f g h show ?thesis by simp
qed

section \<open>A run of the divergence bootstrap with one skewed draw\<close>

lemma upt2: "[0..<2] = [0, Suc 0]" by (simp add: upt_rec)
lemma upto01: "[0..1::int] = [0, 1]" by (simp add: upto.simps)

lemma format_bin_1: "format_bin 1 0 = ''0''" "format_bin 1 (Suc 0) = ''1''"
  by (simp_all add: format_bin_def)

lemma process_results_even_draw: "process_results (map (\<lambda>(i, count). (format_bin 1 i, count)) (enumerate 0 [1, 1])) 1
   = Inr [(0, 1 / 2), (1, 1 / 2)]"
  by (simp add: format_bin_1 process_results_def total_counts_def zero_bins_def upto01
      bin_add_def count_ones_def)

lemma process_results_skewed_draw: "process_results (map (\<lambda>(i, count). (format_bin 1 i, count)) (enumerate 0 [2, 0])) 1
   = Inr [(0, 1), (1, 0)]"
  by (simp add: format_bin_1 process_results_def total_counts_def zero_bins_def upto01
      bin_add_def count_ones_def)

lemma all_keys_of_two_bins: "all_keys_of [(0, a), (1, b)] [(0, c), (1, d)] = [0, 1]"
  by (simp add: all_keys_of_def)

lemma kl_divergence_even_draw: "kl_divergence [(0, 1 / 2), (1, 1 / 2)] [(0, 1 / 2), (1, 1 / 2)] = Inr 0"
  by (rule kl_divergence_equal) (simp_all add: nonneg_dist_def)

lemma kl_divergence_skewed_draw: "\<exists>D. 0 < D \<and> kl_divergence [(0, 1), (1, 0)] [(0, 1 / 2), (1, 1 / 2)] = Inr D"
proof -
  let ?P = "[(0, 1), (1, 0)] :: dist" and ?Q = "[(0, 1 / 2), (1, 1 / 2)] :: dist"
  let ?D = "(1 + epsilon) * ln ((1 + epsilon) / (1 / 2 + epsilon))
            + epsilon * ln (epsilon / (1 / 2 + epsilon))"
  have e: "0 < epsilon" by (rule epsilon_pos)
  have "kl_divergence ?P ?Q = Inr ?D"
    using kl_divergence_value [of ?P ?Q]
    by (simp add: nonneg_dist_def all_keys_of_two_bins dict_get_def)
  moreover have "(1 + epsilon) - (1 / 2 + epsilon)
         < (1 + epsilon) * ln ((1 + epsilon) / (1 / 2 + epsilon))"
    using e by (intro kl_term_lower_strict) simp_all
  moreover have "epsilon - (1 / 2 + epsilon) \<le> epsilon * ln (epsilon / (1 / 2 + epsilon))"
    using e by (intro kl_term_lower) simp_all
  ultimately show ?thesis by (intro exI [of _ ?D]) simp
qed

lemma distance_loop_even_draws:
  "0 < g \<Longrightarrow> distance_loop draws_one_skewed 2 [1 / 2, 1 / 2] 1 [(0, 1 / 2), (1, 1 / 2)] n g
     = Inr (replicate n (Inr 0), g + n)"
proof (induction n arbitrary: g)
  case 0
  then show ?case by simp
next
  case (Suc n)
  from Suc.prems have "draws_one_skewed g 2 [1 / 2, 1 / 2] = Inr ([1, 1], Suc g)"
    by (simp add: draws_one_skewed_def)
  moreover have "distance_loop draws_one_skewed 2 [1 / 2, 1 / 2] 1 [(0, 1 / 2), (1, 1 / 2)] n (Suc g)
     = Inr (replicate n (Inr 0), Suc g + n)" by (rule Suc.IH) simp
  ultimately show ?case by (simp add: process_results_even_draw kl_divergence_even_draw del: enumerate_simps)
qed

lemma all_finite_replicate: "all_finite (replicate n (Inr x)) = Some (replicate n x)"
  by (induction n) simp_all

lemma insort_above_replicate:
  fixes D :: real
  shows "x < D \<Longrightarrow> insort D (replicate n x) = replicate n x @ [D]"
  by (induction n) simp_all

lemma sort_replicate: "sort (replicate n (x::real)) = replicate n x"
  by (induction n) (simp_all add: insort_is_Cons)

lemma sort_one_above:
  fixes D :: real
  shows "x < D \<Longrightarrow> sort (D # replicate n x) = replicate n x @ [D]"
  by (simp add: sort_replicate insort_above_replicate)

lemma percentile_one_above:
  fixes D :: real
  assumes "0 < D"
  shows "percentile (D # replicate 499 0) (195 / 2) = 0"
proof -
  have fl: "\<lfloor>(499::real) * (195 / 2 / 100)\<rfloor> = 486" by (rule floor_unique) simp_all
  have s: "sort (D # replicate 499 0) = replicate 499 0 @ [D]" by (rule sort_one_above [OF assms])
  have "percentile (D # replicate 499 0) (195 / 2)
      = interp (replicate 499 0 @ [D]) (499 * (195 / 2 / 100))"
    by (simp only: percentile_interp s) simp
  also have "\<dots> = 0"
    by (simp add: interp_def Let_def fl nth_append)
  finally show ?thesis .
qed

lemma percentile_lo_one_above:
  fixes D :: real
  assumes "0 < D"
  shows "percentile (D # replicate 499 0) (5 / 2) = 0"
proof -
  have fl: "\<lfloor>(499::real) * (5 / 2 / 100)\<rfloor> = 12" by (rule floor_unique) simp_all
  have s: "sort (D # replicate 499 0) = replicate 499 0 @ [D]" by (rule sort_one_above [OF assms])
  have "percentile (D # replicate 499 0) (5 / 2)
      = interp (replicate 499 0 @ [D]) (499 * (5 / 2 / 100))"
    by (simp only: percentile_interp s) simp
  also have "\<dots> = 0"
    by (simp add: interp_def Let_def fl nth_append)
  finally show ?thesis .
qed

lemma mean_one_above: "mean (D # replicate 499 0) = D / 500"
  by (simp add: mean_def sum_list_replicate)

lemma distance_loop_skewed_first:
  assumes "kl_divergence [(0, 1), (1, 0)] [(0, 1 / 2), (1, 1 / 2)] = Inr D"
  shows "distance_loop draws_one_skewed 2 [1 / 2, 1 / 2] 1 [(0, 1 / 2), (1, 1 / 2)] (Suc n) 0
     = Inr (Inr D # replicate n (Inr 0), Suc n)"
proof -
  have first: "draws_one_skewed 0 2 [1 / 2, 1 / 2] = Inr ([2, 0], Suc 0)"
    by (simp add: draws_one_skewed_def)
  have rest: "distance_loop draws_one_skewed 2 [1 / 2, 1 / 2] 1 [(0, 1 / 2), (1, 1 / 2)] n (Suc 0)
     = Inr (replicate n (Inr 0), Suc 0 + n)" by (rule distance_loop_even_draws) simp
  show ?thesis using first rest assms by (simp add: process_results_skewed_draw del: enumerate_simps)
qed

lemma bootstrap_distance_one_skewed:
  "\<exists>D. 0 < D \<and> bootstrap_distance draws_one_skewed 0 [(''0'', 1), (''1'', 1)] 1
      [(0, 1 / 2), (1, 1 / 2)] None = Inr (Finite (D / 500, 0, 0), 500)"
proof -
  from kl_divergence_skewed_draw obtain D where D: "0 < D"
    and kl: "kl_divergence [(0, 1), (1, 0)] [(0, 1 / 2), (1, 1 / 2)] = Inr D" by blast
  have raw: "collect (\<lambda>i. true_div (dict_get [(''0'', 1), (''1'', 1)] (format_bin 1 i) 0)
                 (total_counts [(''0'', 1), (''1'', 1)])) [0..<2 ^ nat 1] = Inr [1 / 2, 1 / 2]"
    by (simp add: upt2 format_bin_1 true_div_def total_counts_def dict_get_def)
  have "Suc 499 = 500" by simp
  with distance_loop_skewed_first [OF kl, of 499]
  have loop: "distance_loop draws_one_skewed 2 [1 / 2, 1 / 2] 1 [(0, 1 / 2), (1, 1 / 2)]
      500 0 = Inr (Inr D # replicate 499 (Inr 0), 500)"
    by (simp only:)
  have tot: "total_counts [(''0'', 1), (''1'', 1)] = 2" by (simp add: total_counts_def)
  have lo: "percentile (D # replicate 499 0) (5 / 2) = 0"
    by (rule percentile_lo_one_above [OF D])
  have "bootstrap_distance draws_one_skewed 0 [(''0'', 1), (''1'', 1)] 1
      [(0, 1 / 2), (1, 1 / 2)] None
      = Inr (Finite (mean (D # replicate 499 0), percentile (D # replicate 499 0) (5 / 2),
              percentile (D # replicate 499 0) (195 / 2)), 500)"
    using raw loop
    by (simp add: bootstrap_distance_def Let_def tot all_finite_replicate)
  with D show ?thesis
    by (simp only: mean_one_above percentile_one_above [OF D] lo) blast
qed

section \<open>Properties of the two bootstraps\<close>

lemma all_finite_length: "all_finite xs = Some ys \<Longrightarrow> length ys = length xs"
  by (induction xs arbitrary: ys rule: all_finite.induct) (auto split: option.splits)

lemma all_finite_nonempty: "all_finite xs = Some ys \<Longrightarrow> xs \<noteq> [] \<Longrightarrow> ys \<noteq> []"
  using all_finite_length [of xs ys] by auto

lemma bootstrap_distance_lo_hi:
  assumes "bootstrap_distance multinomial g counts layers target_dist n_boot
             = Inr (Finite (mean_dist, ci_lo, ci_hi), g')"
  shows "ci_lo \<le> ci_hi"
proof -
  from assms obtain ds where "ds \<noteq> []"
    and "ci_lo = percentile ds (5 / 2)" and "ci_hi = percentile ds (195 / 2)"
    by (auto simp: bootstrap_distance_def Let_def dest: all_finite_nonempty
        split: if_splits sum.splits option.splits prod.splits)
  then show ?thesis using percentile_lo_hi by simp
qed

lemma bootstrap_ci_lo_hi:
  assumes "bootstrap_ci multinomial g counts m shots n_boot = Inr (Finite (lo, hi), g')"
  shows "lo \<le> hi"
proof -
  from assms obtain arr where "arr \<noteq> []"
    and "lo = percentile arr (5 / 2)" and "hi = percentile arr (195 / 2)"
    by (auto simp: bootstrap_ci_def Let_def dest: all_finite_nonempty
        split: if_splits sum.splits option.splits prod.splits)
  then show ?thesis using percentile_lo_hi by simp
qed

lemma count_draws_apply:
  "count_draws multinomial (g, c) n pvals
     = (case multinomial g n pvals of
          Inl e \<Rightarrow> Inl e
        | Inr (arr, g') \<Rightarrow> Inr (arr, (g', Suc c)))"
  by (simp add: count_draws_def)

lemma distance_loop_count_draws:
  "distance_loop (count_draws multinomial) num_shots raw_p_vec layers target_dist n (g, c)
     = (case distance_loop multinomial num_shots raw_p_vec layers target_dist n g of
          Inl e \<Rightarrow> Inl e
        | Inr (distances, g') \<Rightarrow> Inr (distances, (g', c + n)))"
proof (induction n arbitrary: g c)
  case 0
  then show ?case by simp
next
  case (Suc n)
  show ?case
    by (simp add: count_draws_apply Suc.IH Let_def del: enumerate_simps
        split: sum.splits prod.splits)
qed

lemma estimate_loop_count_draws:
  "estimate_loop (count_draws multinomial) shots pvec m n (g, c)
     = (case estimate_loop multinomial shots pvec m n g of
          Inl e \<Rightarrow> Inl e
        | Inr (estimates, g') \<Rightarrow> Inr (estimates, (g', c + n)))"
proof (induction n arbitrary: g c)
  case 0
  then show ?case by simp
next
  case (Suc n)
  show ?case
    by (simp add: count_draws_apply Suc.IH Let_def del: enumerate_simps
        split: sum.splits prod.splits)
qed

lemma bootstrap_distance_count_draws:
  "bootstrap_distance (count_draws multinomial) (g, c) counts layers target_dist n_boot_arg
     = (case bootstrap_distance multinomial g counts layers target_dist n_boot_arg of
          Inl e \<Rightarrow> Inl e
        | Inr (r, g') \<Rightarrow>
            Inr (r, (g', c + nat (case n_boot_arg of None \<Rightarrow> 500 | Some n \<Rightarrow> n))))"
  by (simp add: bootstrap_distance_def Let_def distance_loop_count_draws
      split: sum.splits prod.splits option.splits returned.splits)

lemma bootstrap_ci_count_draws:
  "bootstrap_ci (count_draws multinomial) (g, c) counts m shots (Some n)
     = (case bootstrap_ci multinomial g counts m shots (Some n) of
          Inl e \<Rightarrow> Inl e
        | Inr (r, g') \<Rightarrow> Inr (r, (g', c + nat n)))"
  by (simp add: bootstrap_ci_def Let_def estimate_loop_count_draws
      split: sum.splits prod.splits option.splits returned.splits)

lemma run_qae_analysis_count_draws:
  "run_qae_analysis (count_draws multinomial) (g, c) counts m shots
     = (case run_qae_analysis multinomial g counts m shots of
          Inl e \<Rightarrow> Inl e
        | Inr (r, g') \<Rightarrow> Inr (r, (g', c + 200)))"
  by (simp add: run_qae_analysis_def Let_def bootstrap_ci_count_draws
      split: sum.splits prod.splits option.splits returned.splits)

lemma int_base2_digits: "int_base2 ''0'' = Inr 0" "int_base2 ''1'' = Inr 1"
  by (simp_all add: int_base2_def)

lemma full_counts_probs_even: "full_counts_probs [(''0'', 1), (''1'', 1)] 1 = Inr [(0, 1 / 2), (1, 1 / 2)]"
  by (simp add: full_counts_probs_def total_counts_def upt2 int_base2_digits true_div_def)

lemma weighted_estimator_even: "weighted_estimator_from_probs [(0, 1 / 2), (1, 1 / 2)] 1 = 1 / 2"
  by (simp add: weighted_estimator_from_probs_def)

lemma weighted_estimator_first_bin: "weighted_estimator_from_probs [(0, 1), (1, 0)] 1 = 0"
  by (simp add: weighted_estimator_from_probs_def)

lemma percentile_single: "percentile [x] q = x"
  by (simp add: percentile_def)

lemma estimate_loop_all_first:
  "estimate_loop draws_all_first 2 [1 / 2, 1 / 2] 1 n g = Inr (replicate n (Inr 0), g + n)"
proof (induction n arbitrary: g)
  case 0
  then show ?case by simp
next
  case (Suc n)
  have "draws_all_first g 2 [1 / 2, 1 / 2] = Inr ([2, 0], Suc g)"
    by (simp add: draws_all_first_def)
  then show ?case by (simp add: Suc.IH np_div_def weighted_estimator_first_bin)
qed

lemma bootstrap_ci_all_first: "bootstrap_ci draws_all_first 0 [(''0'', 1), (''1'', 1)] 1 2 (Some 1) = Inr (Finite (0, 0), 1)"
  using estimate_loop_all_first [of "Suc 0" 0]
  by (simp add: bootstrap_ci_def full_counts_probs_even upt2 dict_get_def percentile_single)

lemma percentile_replicate: "0 < n \<Longrightarrow> 0 \<le> q \<Longrightarrow> q \<le> 100 \<Longrightarrow> percentile (replicate n x) q = x"
proof -
  assume n: "0 < n" and q: "0 \<le> q" "q \<le> 100"
  let ?pos = "real (n - 1) * (q / 100)"
  have "?pos \<le> real (n - 1) * 1" using q by (intro mult_left_mono) simp_all
  then have "\<lfloor>?pos\<rfloor> \<le> int (n - 1)" by (simp add: floor_le_iff) 
  then have i: "nat \<lfloor>?pos\<rfloor> < n" using n by linarith
  have j: "min (nat \<lfloor>?pos\<rfloor> + 1) (n - 1) < n" using n by simp
  show ?thesis using i j
    by (simp add: percentile_def Let_def sort_replicate)
qed

lemma run_qae_analysis_all_first: "run_qae_analysis draws_all_first 0 [(''0'', 1), (''1'', 1)] 1 2 = Inr (Finite (1 / 2, 0, 0), 200)"
  using estimate_loop_all_first [of 200 0]
  by (simp add: run_qae_analysis_def bootstrap_ci_def full_counts_probs_even weighted_estimator_even upt2 dict_get_def
      all_finite_replicate percentile_replicate)

lemma bootstrap_distance_default:
  "bootstrap_distance multinomial g counts layers target_dist None
     = bootstrap_distance multinomial g counts layers target_dist (Some 500)"
  by (simp add: bootstrap_distance_def)

lemma estimate_loop_zero_shots:
  "estimate_loop draws_all_first 0 [1 / 2, 1 / 2] 1 (Suc 0) 0 = Inr ([Inl NonFinite], Suc 0)"
proof -
  have "draws_all_first 0 0 [1 / 2, 1 / 2] = Inr ([0, 0], Suc 0)"
    by (simp add: draws_all_first_def)
  then show ?thesis by (simp add: np_div_def)
qed

lemma bootstrap_ci_zero_shots:
  "bootstrap_ci draws_all_first 0 [(''0'', 1), (''1'', 1)] 1 0 (Some 1) = Inr (NotFinite, 1)"
  using estimate_loop_zero_shots
  by (simp add: bootstrap_ci_def full_counts_probs_even upt2 dict_get_def)

section \<open>Claims about the two bootstraps\<close>

text \<open>
  C5, as the code has it. Whenever \<open>bootstrap_distance\<close> returns a triple of finite
  numbers \<open>(mean_dist, ci_lo, ci_hi)\<close>, its bounds satisfy \<open>ci_lo \<le> ci_hi\<close>, and whenever
  \<open>bootstrap_ci\<close> returns a pair of finite numbers \<open>(lo, hi)\<close>, it satisfies \<open>lo \<le> hi\<close>, for
  every generator and every generator state. The statement is about finite returns
  only: a call can also return \<^verbatim>\<open>nan\<close> values, which are not ordered. And it says nothing
  about the mean, or the point estimate computed from the original counts, lying
  between the bounds. The counterexample below shows both.
\<close>

theorem bootstrap_interval_ordered:
  "(bootstrap_distance multinomial g counts layers target_dist n_boot
      = Inr (Finite (mean_dist, ci_lo, ci_hi), g') \<longrightarrow> ci_lo \<le> ci_hi) \<and>
   (bootstrap_ci multinomial' h counts' m shots n_boot' = Inr (Finite (lo, hi), h')
      \<longrightarrow> lo \<le> hi)"
  using bootstrap_distance_lo_hi [of multinomial g counts layers target_dist n_boot
      mean_dist ci_lo ci_hi g']
    bootstrap_ci_lo_hi [of multinomial' h counts' m shots n_boot' lo hi h']
  by blast

theorem bootstrap_interval_ordered_witness:
  "(\<exists>mean_dist ci_lo ci_hi g'.
      bootstrap_distance draws_one_skewed 0 [(''0'', 1), (''1'', 1)] 1
        [(0, 1 / 2), (1, 1 / 2)] None = Inr (Finite (mean_dist, ci_lo, ci_hi), g')
      \<and> ci_lo \<le> ci_hi) \<and>
   bootstrap_ci draws_all_first 0 [(''0'', 1), (''1'', 1)] 1 2 (Some 1)
     = Inr (Finite (0, 0), 1) \<and>
   (0::real) \<le> 0"
proof -
  from bootstrap_distance_one_skewed obtain D where
    run: "bootstrap_distance draws_one_skewed 0 [(''0'', 1), (''1'', 1)] 1
        [(0, 1 / 2), (1, 1 / 2)] None = Inr (Finite (D / 500, 0, 0), 500)" by blast
  note ci = bootstrap_ci_all_first
  from bootstrap_interval_ordered [of draws_one_skewed 0 "[(''0'', 1), (''1'', 1)]" 1
      "[(0, 1 / 2), (1, 1 / 2)]" None "D / 500" 0 0 500
      draws_all_first 0 "[(''0'', 1), (''1'', 1)]" 1 2 "Some 1" 0 0 1] run ci
  have "(0::real) \<le> 0" by blast
  with run ci show ?thesis by blast
qed

text \<open>
  The claim as stated fails, on the counts \<open>{'0': 1, '1': 1}\<close> in each case.
  \<^item> With the default 500 resamples, of which one is \<open>[2, 0]\<close> and 499 are \<open>[1, 1]\<close>,
    \<open>bootstrap_distance\<close> returns finite numbers whose upper bound is below the mean.
  \<^item> For \<open>m = 1\<close> the point estimate of the counts is \<open>1/2\<close>, while resamples that are all
    \<open>[2, 0]\<close> give the interval \<open>(0, 0)\<close>: with one resample from \<open>bootstrap_ci\<close> itself,
    and with the 200 resamples of the analysis in \<open>run_qae_simulation\<close>, which yields
    \<open>(p_est, lo, hi) = (1/2, 0, 0)\<close>.
  \<^item> With \<open>shots = 0\<close> the only possible resample is \<open>[0, 0]\<close>, every resampled
    probability is \<open>0/0\<close>, and \<open>bootstrap_ci\<close> returns \<^verbatim>\<open>(nan, nan)\<close>: a return that is not
    finite, and not ordered.
\<close>

theorem bootstrap_interval_counterexample:
  "(case bootstrap_distance draws_one_skewed 0 [(''0'', 1), (''1'', 1)] 1
           [(0, 1 / 2), (1, 1 / 2)] None of
      Inr (Finite (mean_dist, ci_lo, ci_hi), g') \<Rightarrow> ci_hi < mean_dist
    | _ \<Rightarrow> False) \<and>
   full_counts_probs [(''0'', 1), (''1'', 1)] 1 = Inr [(0, 1 / 2), (1, 1 / 2)] \<and>
   weighted_estimator_from_probs [(0, 1 / 2), (1, 1 / 2)] 1 = 1 / 2 \<and>
   bootstrap_ci draws_all_first 0 [(''0'', 1), (''1'', 1)] 1 2 (Some 1)
     = Inr (Finite (0, 0), 1) \<and>
   run_qae_analysis draws_all_first 0 [(''0'', 1), (''1'', 1)] 1 2
     = Inr (Finite (1 / 2, 0, 0), 200) \<and>
   bootstrap_ci draws_all_first 0 [(''0'', 1), (''1'', 1)] 1 0 (Some 1) = Inr (NotFinite, 1)"
proof -
  from bootstrap_distance_one_skewed obtain D where D: "0 < D" and
    run: "bootstrap_distance draws_one_skewed 0 [(''0'', 1), (''1'', 1)] 1
        [(0, 1 / 2), (1, 1 / 2)] None = Inr (Finite (D / 500, 0, 0), 500)" by blast
  from D have "0 < D / 500" by simp
  with run have "case bootstrap_distance draws_one_skewed 0 [(''0'', 1), (''1'', 1)] 1
           [(0, 1 / 2), (1, 1 / 2)] None of
      Inr (Finite (mean_dist, ci_lo, ci_hi), g') \<Rightarrow> ci_hi < mean_dist
    | _ \<Rightarrow> False" by simp
  with full_counts_probs_even weighted_estimator_even bootstrap_ci_all_first
    run_qae_analysis_all_first bootstrap_ci_zero_shots
  show ?thesis by blast
qed

text \<open>
  C9, as the code has it. \<open>bootstrap_distance\<close> has the default \<open>n_boot = 500\<close>: a call
  without \<open>n_boot\<close> that returns has drawn 500 resamples, and a call with \<open>n_boot = n\<close> has
  drawn \<open>n\<close>. \<open>bootstrap_ci\<close> has no default: a call without the resample count is a
  TypeError, and a call with \<open>n_boot = n\<close> that returns has drawn \<open>n\<close> resamples. The count
  200 of the QAE bootstrap is the argument that the analysis in \<open>run_qae_simulation\<close>
  passes: each analysis that returns has drawn 200 resamples.
\<close>

theorem bootstrap_resample_counts:
  "(bootstrap_distance (count_draws multinomial) (g, 0) counts layers target_dist None
      = Inr (r, (g', c)) \<longrightarrow> c = 500) \<and>
   (bootstrap_distance (count_draws multinomial) (g, 0) counts layers target_dist (Some n)
      = Inr (r1, (g1, c1)) \<longrightarrow> c1 = nat n) \<and>
   bootstrap_ci multinomial g counts m shots None = Inl TypeError \<and>
   (bootstrap_ci (count_draws multinomial) (g, 0) counts m shots (Some n)
      = Inr (r2, (g2, c2)) \<longrightarrow> c2 = nat n) \<and>
   (run_qae_analysis (count_draws multinomial) (g, 0) counts m shots
      = Inr (r3, (g3, c3)) \<longrightarrow> c3 = 200)"
proof -
  have a: "bootstrap_distance (count_draws multinomial) (g, 0) counts layers target_dist None
      = Inr (r, (g', c)) \<Longrightarrow> c = 500"
    by (auto simp: bootstrap_distance_count_draws split: sum.splits)
  have b: "bootstrap_distance (count_draws multinomial) (g, 0) counts layers target_dist (Some n)
      = Inr (r1, (g1, c1)) \<Longrightarrow> c1 = nat n"
    by (auto simp: bootstrap_distance_count_draws split: sum.splits)
  have c: "bootstrap_ci multinomial g counts m shots None = Inl TypeError"
    by (simp add: bootstrap_ci_def)
  have d: "bootstrap_ci (count_draws multinomial) (g, 0) counts m shots (Some n)
      = Inr (r2, (g2, c2)) \<Longrightarrow> c2 = nat n"
    by (auto simp: bootstrap_ci_count_draws split: sum.splits)
  have e: "run_qae_analysis (count_draws multinomial) (g, 0) counts m shots
      = Inr (r3, (g3, c3)) \<Longrightarrow> c3 = 200"
    by (auto simp: run_qae_analysis_count_draws split: sum.splits)
  from a b c d e show ?thesis by blast
qed

theorem bootstrap_resample_counts_witness:
  "(\<exists>r g'. bootstrap_distance (count_draws draws_one_skewed) (0, 0) [(''0'', 1), (''1'', 1)] 1
      [(0, 1 / 2), (1, 1 / 2)] None = Inr (r, (g', 500))) \<and>
   (\<exists>r g'. bootstrap_distance (count_draws draws_one_skewed) (0, 0) [(''0'', 1), (''1'', 1)] 1
      [(0, 1 / 2), (1, 1 / 2)] (Some 500) = Inr (r, (g', nat 500))) \<and>
   (\<exists>r g'. bootstrap_ci (count_draws draws_all_first) (0, 0) [(''0'', 1), (''1'', 1)] 1 2 (Some 1)
      = Inr (r, (g', nat 1))) \<and>
   (\<exists>r g'. run_qae_analysis (count_draws draws_all_first) (0, 0) [(''0'', 1), (''1'', 1)] 1 2
      = Inr (r, (g', 200)))"
proof -
  let ?C = "[(''0'', 1), (''1'', 1)] :: counts" and ?T = "[(0, 1 / 2), (1, 1 / 2)] :: dist"
  from bootstrap_distance_one_skewed obtain D where
    "bootstrap_distance draws_one_skewed 0 ?C 1 ?T None = Inr (Finite (D / 500, 0, 0), 500)"
    by blast
  then obtain r g' c where
    run_a: "bootstrap_distance (count_draws draws_one_skewed) (0, 0) ?C 1 ?T None
      = Inr (r, (g', c))"
    by (simp add: bootstrap_distance_count_draws)
  then have run_b: "bootstrap_distance (count_draws draws_one_skewed) (0, 0) ?C 1 ?T (Some 500)
      = Inr (r, (g', c))"
    by (simp add: bootstrap_distance_default)
  obtain r2 g2 c2 where
    run_c: "bootstrap_ci (count_draws draws_all_first) (0, 0) ?C 1 2 (Some 1)
      = Inr (r2, (g2, c2))"
    using bootstrap_ci_all_first by (simp add: bootstrap_ci_count_draws)
  obtain r3 g3 c3 where
    run_d: "run_qae_analysis (count_draws draws_all_first) (0, 0) ?C 1 2 = Inr (r3, (g3, c3))"
    using run_qae_analysis_all_first by (simp add: run_qae_analysis_count_draws)
  from bootstrap_resample_counts [of draws_one_skewed 0 ?C 1 ?T r g' c 500 r g' c 1 2]
    run_a run_b
  have ca: "c = 500" and cb: "c = nat 500" by blast+
  from bootstrap_resample_counts [of draws_all_first 0 ?C 1 ?T _ _ _ 1 _ _ _ 1 2 r2 g2 c2 r3 g3 c3]
    run_c run_d
  have cc: "c2 = nat 1" and cd: "c3 = 200" by blast+
  from run_a have wa: "bootstrap_distance (count_draws draws_one_skewed) (0, 0) ?C 1 ?T None
      = Inr (r, (g', 500))" by (simp only: ca)
  from run_b have wb: "bootstrap_distance (count_draws draws_one_skewed) (0, 0) ?C 1 ?T (Some 500)
      = Inr (r, (g', nat 500))" by (simp only: cb [symmetric])
  from run_c have wc: "bootstrap_ci (count_draws draws_all_first) (0, 0) ?C 1 2 (Some 1)
      = Inr (r2, (g2, nat 1))" by (simp only: cc)
  from run_d have wd: "run_qae_analysis (count_draws draws_all_first) (0, 0) ?C 1 2
      = Inr (r3, (g3, 200))" by (simp only: cd)
  show ?thesis
    by (intro conjI exI) (rule wa, rule wb, rule wc, rule wd)
qed

text \<open>
  The claim as stated fails: a call of \<open>bootstrap_ci\<close> without the resample count
  performs no iteration at all.
\<close>

theorem bootstrap_ci_default_counterexample:
  "bootstrap_ci draws_all_first 0 [(''0'', 1), (''1'', 1)] 1 2 None = Inl TypeError"
  by (simp add: bootstrap_ci_def)

end
